theory Spec2Isabelle
  imports Main "HOL-Library.Word"
begin

unbundle bit_operations_syntax

section \<open>The byte source\<close>

text \<open>
  \<^verbatim>\<open>std::ifstream\<close> opened in binary mode on a file: the file's bytes, the read position and
  the failure state. The program never enables stream exceptions and never calls
  \<^verbatim>\<open>clear()\<close>, so a failure only sets \<open>failbit\<close>, which then stays set; every later
  \<^verbatim>\<open>seekg\<close> and \<^verbatim>\<open>read\<close> on a failed stream does nothing.
\<close>

record ifstream =
  data :: string
  pos :: nat
  failbit :: bool

datatype seekdir = ios_beg | ios_end

definition open_file :: "string \<Rightarrow> ifstream" where
  "open_file d = \<lparr>data = d, pos = 0, failbit = False\<rparr>"

text \<open>\<^verbatim>\<open>file.seekg(off, dir)\<close>: a seek to a negative position fails and sets \<open>failbit\<close>.\<close>

definition seekg :: "ifstream \<Rightarrow> int \<Rightarrow> seekdir \<Rightarrow> ifstream" where
  "seekg file off dir =
     (if failbit file then file
      else let target = (case dir of ios_beg \<Rightarrow> off
                                   | ios_end \<Rightarrow> int (length (data file)) + off)
           in if 0 \<le> target then file\<lparr>pos := nat target\<rparr>
              else file\<lparr>failbit := True\<rparr>)"

text \<open>
  \<^verbatim>\<open>file.read(s, n)\<close>. The second argument is what the destination array holds before the
  call (position by position): a short read stores the bytes that are left, sets
  \<open>failbit\<close> and leaves the rest of the array as it was; a read on a failed stream leaves
  all of it. The result is the array after the call and the stream after the call.
\<close>

definition read :: "ifstream \<Rightarrow> (nat \<Rightarrow> char) \<Rightarrow> nat \<Rightarrow> string \<times> ifstream" where
  "read file s n =
     (if failbit file then (map s [0..<n], file)
      else let got = take n (drop (pos file) (data file))
           in if length got = n then (got, file\<lparr>pos := pos file + n\<rparr>)
              else (got @ map s [length got..<n],
                    file\<lparr>pos := pos file + length got, failbit := True\<rparr>))"

section \<open>The metadata record and the exceptions\<close>

record MetaData =
  title :: string
  artist :: string
  album :: string
  year :: string

datatype exception = runtime_error string

text \<open>
  The contents of the local \<^verbatim>\<open>char\<close> arrays before anything is stored in them. C++ leaves
  them indeterminate, so they are parameters of the model: \<^verbatim>\<open>header[3]\<close> of
  \<^verbatim>\<open>hasID3v2Tag\<close>, \<^verbatim>\<open>buffer[128]\<close> of \<^verbatim>\<open>readID3v1Tag\<close>, \<^verbatim>\<open>header[10]\<close> of
  \<^verbatim>\<open>readID3v2Tag\<close> and its \<^verbatim>\<open>frameHeader[10]\<close>, one array for each turn of the loop.
\<close>

record uninit =
  detect_header :: "nat \<Rightarrow> char"
  v1_buffer :: "nat \<Rightarrow> char"
  v2_header :: "nat \<Rightarrow> char"
  v2_frameHeader :: "nat \<Rightarrow> nat \<Rightarrow> char"

section \<open>The synch-safe integer decoder\<close>

text \<open>
  Integral promotion of a plain \<^verbatim>\<open>char\<close> to the 32-bit \<^verbatim>\<open>int\<close>, with \<^verbatim>\<open>char\<close> signed
  (sign extension of the byte). Where \<^verbatim>\<open>char\<close> is unsigned the promotion extends with
  zeros; under the mask \<^verbatim>\<open>0x7F\<close> the two agree (lemma \<open>char_to_int_low7\<close>).
\<close>

definition char_to_int :: "char \<Rightarrow> 32 word" where
  "char_to_int c = scast (of_char c :: 8 word)"

text \<open>The result is the value of the 32-bit \<^verbatim>\<open>int\<close> that the expression computes.\<close>

definition decodeSynchsafeInt :: "string \<Rightarrow> int" where
  "decodeSynchsafeInt buffer =
     sint (((push_bit 21 (char_to_int (buffer ! 0) AND 0x7F) OR
             push_bit 14 (char_to_int (buffer ! 1) AND 0x7F)) OR
            push_bit 7 (char_to_int (buffer ! 2) AND 0x7F)) OR
           (char_to_int (buffer ! 3) AND 0x7F))"

text \<open>
  The low seven bits of a byte, read as an unsigned value. The mask removes the sign
  extension of the promotion, and the four septets together stay below \<open>2 ^ 28\<close>, so the
  \<^verbatim>\<open>int\<close> arithmetic of the decoder cannot overflow.
\<close>

definition low7 :: "char \<Rightarrow> int" where
  "low7 c = of_char c AND 0x7F"

lemma of_char_word8: "(of_char c :: 8 word) = word_of_int (of_char c)"
  by (simp add: of_int_of_char)

lemma seven_bits: "(0x7F :: 'a :: ring_bit_operations) = mask 7"
  by (simp add: mask_eq_exp_minus_1)

lemma char_to_int_low7: "char_to_int c AND 0x7F = word_of_int (low7 c)"
  unfolding char_to_int_def of_char_word8 low7_def
  apply (rule bit_word_eqI)
  apply (simp only: seven_bits)
  apply (auto simp add: bit_simps)
  done

lemma low7_nonneg: "0 \<le> low7 c"
  by (simp add: low7_def)

lemma low7_less: "low7 c < 2 ^ 7"
proof -
  have "low7 c \<le> 0x7F" unfolding low7_def by (rule AND_upper2) simp
  then show ?thesis by simp
qed

lemma septets_nonneg:
  "0 \<le> ((push_bit 21 (low7 a) OR push_bit 14 (low7 b)) OR push_bit 7 (low7 c)) OR low7 d"
  by (simp add: low7_nonneg)

lemma septets_less:
  "((push_bit 21 (low7 a) OR push_bit 14 (low7 b)) OR push_bit 7 (low7 c)) OR low7 d < 2 ^ 28"
proof -
  have a: "push_bit 21 (low7 a) < 2 ^ 28"
    using low7_less [of a] by (simp add: push_bit_eq_mult)
  have b: "push_bit 14 (low7 b) < 2 ^ 28"
    using low7_less [of b] by (simp add: push_bit_eq_mult)
  have c: "push_bit 7 (low7 c) < 2 ^ 28"
    using low7_less [of c] by (simp add: push_bit_eq_mult)
  have d: "low7 d < 2 ^ 28"
    using low7_less [of d] by simp
  have ab: "push_bit 21 (low7 a) OR push_bit 14 (low7 b) < 2 ^ 28"
    by (rule OR_upper) (use a b low7_nonneg in simp_all)
  have abc: "(push_bit 21 (low7 a) OR push_bit 14 (low7 b)) OR push_bit 7 (low7 c) < 2 ^ 28"
    by (rule OR_upper) (use ab c low7_nonneg in simp_all)
  show ?thesis
    by (rule OR_upper) (use abc d low7_nonneg in simp_all)
qed

lemma decodeSynchsafeInt_septets:
  "decodeSynchsafeInt buffer =
     ((push_bit 21 (low7 (buffer ! 0)) OR push_bit 14 (low7 (buffer ! 1))) OR
      push_bit 7 (low7 (buffer ! 2))) OR low7 (buffer ! 3)"
proof -
  let ?k = "((push_bit 21 (low7 (buffer ! 0)) OR push_bit 14 (low7 (buffer ! 1))) OR
             push_bit 7 (low7 (buffer ! 2))) OR low7 (buffer ! 3)"
  have w: "((push_bit 21 (char_to_int (buffer ! 0) AND 0x7F) OR
             push_bit 14 (char_to_int (buffer ! 1) AND 0x7F)) OR
            push_bit 7 (char_to_int (buffer ! 2) AND 0x7F)) OR
           (char_to_int (buffer ! 3) AND 0x7F) = (word_of_int ?k :: 32 word)"
    by (simp only: char_to_int_low7 of_int_or_eq of_int_push_bit)
  have "(- (2 ^ 31) :: int) \<le> 0"
    by simp
  then have "- (2 ^ 31) \<le> ?k"
    by (rule order_trans) (rule septets_nonneg)
  moreover have "(2 ^ 28 :: int) \<le> 2 ^ 31"
    by simp
  with septets_less have "?k < 2 ^ 31"
    by (rule less_le_trans)
  ultimately have "signed_take_bit 31 ?k = ?k"
    by (rule signed_take_bit_int_eq_self)
  then have "sint (word_of_int ?k :: 32 word) = ?k"
    by (simp add: sint_sbintrunc')
  with w show ?thesis
    by (simp only: decodeSynchsafeInt_def)
qed

lemma decodeSynchsafeInt_nonneg: "0 \<le> decodeSynchsafeInt buffer"
  unfolding decodeSynchsafeInt_septets by (rule septets_nonneg)

lemma decodeSynchsafeInt_less: "decodeSynchsafeInt buffer < 2 ^ 28"
  unfolding decodeSynchsafeInt_septets by (rule septets_less)

section \<open>The text frame decoder\<close>

text \<open>
  \<^verbatim>\<open>std::string::operator[]\<close>: position \<open>size()\<close> is the terminating null character
  (positions beyond it are never asked for by the program).
\<close>

definition string_at :: "string \<Rightarrow> nat \<Rightarrow> char" where
  "string_at s i = (if i < length s then s ! i else CHR 0x00)"

text \<open>The loop \<^verbatim>\<open>for (size_t i = 0; i < textContent.size(); i += 2)\<close>.\<close>

function utf16_loop :: "string \<Rightarrow> nat \<Rightarrow> string \<Rightarrow> string" where
  "utf16_loop textContent i utf16Text =
     (if i < length textContent
      then utf16_loop textContent (i + 2) (utf16Text @ [string_at textContent (i + 1)])
      else utf16Text)"
  by pat_completeness auto
termination
  by (relation "measure (\<lambda>(textContent, i, utf16Text). length textContent - i)") auto

declare utf16_loop.simps [simp del]

definition parseTextFrame :: "string \<Rightarrow> string" where
  "parseTextFrame content =
     (if content = [] then []
      else let encoding = (of_char (content ! 0) :: 8 word);
               textContent = drop 1 content
           in if encoding = 0 then textContent
              else if encoding = 1 then utf16_loop textContent 0 []
              else textContent)"

section \<open>The tag format detector and the legacy tag reader\<close>

definition hasID3v2Tag :: "(nat \<Rightarrow> char) \<Rightarrow> ifstream \<Rightarrow> bool \<times> ifstream" where
  "hasID3v2Tag header0 file =
     (let file1 = seekg file 0 ios_beg;
          (header, file2) = read file1 header0 3
      in (header ! 0 = CHR ''I'' \<and> header ! 1 = CHR ''D'' \<and> header ! 2 = CHR ''3'', file2))"

definition readID3v1Tag ::
  "(nat \<Rightarrow> char) \<Rightarrow> ifstream \<Rightarrow> MetaData \<Rightarrow> exception + (ifstream \<times> MetaData)" where
  "readID3v1Tag buffer0 file metadata =
     (let file1 = seekg file (- 128) ios_end;
          (buffer, file2) = read file1 buffer0 128
      in if buffer ! 0 = CHR ''T'' \<and> buffer ! 1 = CHR ''A'' \<and> buffer ! 2 = CHR ''G''
         then Inr (file2, metadata\<lparr>title := take 30 (drop 3 buffer),
                                    artist := take 30 (drop 33 buffer),
                                    album := take 30 (drop 63 buffer),
                                    year := take 4 (drop 93 buffer)\<rparr>)
         else Inl (runtime_error ''No ID3v1 tag found in file.''))"

section \<open>The modern tag reader\<close>

text \<open>
  One turn of the \<^verbatim>\<open>while\<close> loop, up to its closing test: the stream, the record and
  \<^verbatim>\<open>bytesRead\<close> after it. The payload buffer is a \<^verbatim>\<open>std::vector<char>\<close>, which starts
  filled with zero bytes (its allocation is taken to succeed).
\<close>

definition readFrame ::
  "(nat \<Rightarrow> char) \<Rightarrow> ifstream \<Rightarrow> MetaData \<Rightarrow> int \<Rightarrow> ifstream \<times> MetaData \<times> int" where
  "readFrame frameHeader0 file metadata bytesRead =
     (let (frameHeader, file1) = read file frameHeader0 10;
          bytesRead1 = bytesRead + 10;
          frameID = take 4 frameHeader;
          frameSize = decodeSynchsafeInt (drop 4 frameHeader);
          bytesRead2 = bytesRead1 + frameSize
      in if frameSize > 0
         then let (frameContent, file2) = read file1 (\<lambda>_. CHR 0x00) (nat frameSize);
                  content = frameContent
              in (file2,
                  if frameID = ''TIT2'' then metadata\<lparr>title := parseTextFrame content\<rparr>
                  else if frameID = ''TPE1'' then metadata\<lparr>artist := parseTextFrame content\<rparr>
                  else if frameID = ''TALB'' then metadata\<lparr>album := parseTextFrame content\<rparr>
                  else if frameID = ''TYER'' then metadata\<lparr>year := parseTextFrame content\<rparr>
                  else metadata,
                  bytesRead2)
         else (file1, metadata, bytesRead2))"

lemma readFrame_bytesRead:
  assumes "readFrame frameHeader0 file metadata bytesRead = (file', metadata', bytesRead')"
  shows "bytesRead + 10 \<le> bytesRead'" and "bytesRead' < bytesRead + 10 + 2 ^ 28"
proof -
  obtain frameHeader file1 where r: "read file frameHeader0 10 = (frameHeader, file1)"
    by (cases "read file frameHeader0 10")
  have "bytesRead' = bytesRead + 10 + decodeSynchsafeInt (drop 4 frameHeader)"
    using assms r by (auto simp add: readFrame_def Let_def split: prod.splits if_splits)
  then show "bytesRead + 10 \<le> bytesRead'" and "bytesRead' < bytesRead + 10 + 2 ^ 28"
    using decodeSynchsafeInt_nonneg [of "drop 4 frameHeader"]
      decodeSynchsafeInt_less [of "drop 4 frameHeader"] by simp_all
qed

text \<open>
  The loop \<^verbatim>\<open>while (bytesRead < tagSize) { ...; if (bytesRead >= tagSize) break; }\<close>,
  with the number of the turn, which selects the turn's \<^verbatim>\<open>frameHeader\<close> array. It gives
  the stream, the record and \<^verbatim>\<open>bytesRead\<close> on leaving the loop.
\<close>

function frameLoop ::
  "(nat \<Rightarrow> nat \<Rightarrow> char) \<Rightarrow> nat \<Rightarrow> int \<Rightarrow> ifstream \<Rightarrow> MetaData \<Rightarrow> int
     \<Rightarrow> ifstream \<times> MetaData \<times> int" where
  "frameLoop frameHeader0 k tagSize file metadata bytesRead =
     (if bytesRead < tagSize
      then (case readFrame (frameHeader0 k) file metadata bytesRead of
              (file', metadata', bytesRead') \<Rightarrow>
                if bytesRead' \<ge> tagSize then (file', metadata', bytesRead')
                else frameLoop frameHeader0 (k + 1) tagSize file' metadata' bytesRead')
      else (file, metadata, bytesRead))"
  by pat_completeness auto
termination
  apply (relation "measure (\<lambda>(frameHeader0, k, tagSize, file, metadata, bytesRead).
                            nat (tagSize - bytesRead))")
   apply simp
  subgoal premises prems for frameHeader0 k tagSize f metadata bytesRead f' y metadata' bytesRead'
  proof -
    have eq: "readFrame (frameHeader0 k) f metadata bytesRead = (f', metadata', bytesRead')"
      using prems(2,3) by simp
    show ?thesis
      using readFrame_bytesRead(1) [OF eq] prems(1,4) by (simp add: eq)
  qed
  done

declare frameLoop.simps [simp del]

definition readID3v2Tag ::
  "(nat \<Rightarrow> char) \<Rightarrow> (nat \<Rightarrow> nat \<Rightarrow> char) \<Rightarrow> ifstream \<Rightarrow> MetaData \<Rightarrow> ifstream \<times> MetaData" where
  "readID3v2Tag header0 frameHeader0 file metadata =
     (let file1 = seekg file 0 ios_beg;
          (header, file2) = read file1 header0 10;
          tagSize = decodeSynchsafeInt (drop 6 header);
          bytesRead = 10;
          (file3, metadata', bytesRead') = frameLoop frameHeader0 0 tagSize file2 metadata bytesRead
      in (file3, metadata'))"

section \<open>The entry point\<close>

text \<open>
  \<^verbatim>\<open>readMetadata(filepath)\<close>, over the files that can be opened (a map from paths to
  contents). An exception thrown is the left summand; the record returned, the right one.
\<close>

definition readMetadata :: "uninit \<Rightarrow> (string \<rightharpoonup> string) \<Rightarrow> string \<Rightarrow> exception + MetaData" where
  "readMetadata u files filepath =
     (let metadata = \<lparr>title = [], artist = [], album = [], year = []\<rparr>
      in case files filepath of
           None \<Rightarrow> Inl (runtime_error (''Could not open file: '' @ filepath))
         | Some d \<Rightarrow>
             let file = open_file d;
                 (modern, file1) = hasID3v2Tag (detect_header u) file
             in if modern
                then (case readID3v2Tag (v2_header u) (v2_frameHeader u) file1 metadata of
                        (file2, metadata') \<Rightarrow> Inr metadata')
                else (case readID3v1Tag (v1_buffer u) file1 metadata of
                        Inl e \<Rightarrow> Inl e
                      | Inr (file2, metadata') \<Rightarrow> Inr metadata'))"

section \<open>Inputs\<close>

text \<open>A text of complete two-byte code units: the two bytes of each unit, in order.\<close>

definition code_units :: "(char \<times> char) list \<Rightarrow> string" where
  "code_units pairs = concat (map (\<lambda>(first, second). [first, second]) pairs)"

text \<open>The last 128 bytes of a file of at least 128 bytes.\<close>

definition last128 :: "string \<Rightarrow> string" where
  "last128 d = drop (length d - 128) d"

text \<open>
  A frame as it lies in a modern tag: the four identifier bytes, the four size bytes, the
  two flag bytes and the payload. It is well formed when the fields have these lengths
  and the size bytes decode to the length of the payload.
\<close>

record frame =
  frame_id :: string
  frame_size :: string
  frame_flags :: string
  frame_payload :: string

definition encode_frame :: "frame \<Rightarrow> string" where
  "encode_frame fr = frame_id fr @ frame_size fr @ frame_flags fr @ frame_payload fr"

definition wf_frame :: "frame \<Rightarrow> bool" where
  "wf_frame fr =
     (length (frame_id fr) = 4 \<and> length (frame_size fr) = 4 \<and> length (frame_flags fr) = 2 \<and>
      decodeSynchsafeInt (frame_size fr) = int (length (frame_payload fr)))"

text \<open>What the loop adds to \<^verbatim>\<open>bytesRead\<close> for a frame, and for a list of frames.\<close>

definition frame_bytes :: "frame \<Rightarrow> int" where
  "frame_bytes fr = 10 + int (length (frame_payload fr))"

definition total_bytes :: "frame list \<Rightarrow> int" where
  "total_bytes frs = sum_list (map frame_bytes frs)"

text \<open>
  What one turn of the loop does to the record when the frame is wholly in the stream
  (lemma \<open>readFrame_wf\<close> below).
\<close>

definition store_frame :: "MetaData \<Rightarrow> frame \<Rightarrow> MetaData" where
  "store_frame metadata fr =
     (if frame_payload fr = [] then metadata
      else if frame_id fr = ''TIT2'' then metadata\<lparr>title := parseTextFrame (frame_payload fr)\<rparr>
      else if frame_id fr = ''TPE1'' then metadata\<lparr>artist := parseTextFrame (frame_payload fr)\<rparr>
      else if frame_id fr = ''TALB'' then metadata\<lparr>album := parseTextFrame (frame_payload fr)\<rparr>
      else if frame_id fr = ''TYER'' then metadata\<lparr>year := parseTextFrame (frame_payload fr)\<rparr>
      else metadata)"

text \<open>The field of the record that a recognized identifier names.\<close>

definition frame_field :: "string \<Rightarrow> MetaData \<Rightarrow> string" where
  "frame_field frameID metadata =
     (if frameID = ''TIT2'' then title metadata
      else if frameID = ''TPE1'' then artist metadata
      else if frameID = ''TALB'' then album metadata
      else if frameID = ''TYER'' then year metadata
      else [])"

subsection \<open>Concrete files\<close>

text \<open>Local arrays that happen to hold zero bytes.\<close>

definition zero_uninit :: uninit where
  "zero_uninit = \<lparr>detect_header = (\<lambda>i. CHR 0x00), v1_buffer = (\<lambda>i. CHR 0x00),
                  v2_header = (\<lambda>i. CHR 0x00), v2_frameHeader = (\<lambda>k i. CHR 0x00)\<rparr>"

text \<open>
  Five bytes of audio and a legacy tag; the title and the album are padded with spaces,
  the artist with NUL bytes.
\<close>

definition legacy_file :: string where
  "legacy_file = ''audio'' @ ''TAG'' @
     ''A Song Title                  '' @
     ''Some Artist'' @ replicate 19 (CHR 0x00) @
     ''An Album                      '' @
     ''1999'' @ replicate 31 (CHR 0x00)"

text \<open>
  A \<^verbatim>\<open>buffer[128]\<close> that happens to hold \<open>TAG\<close> and 125 bytes \<open>x\<close> before anything is
  read into it.
\<close>

definition tag_in_buffer :: "nat \<Rightarrow> char" where
  "tag_in_buffer i = (''TAG'' @ replicate 125 (CHR ''x'')) ! i"

text \<open>A file with neither tag.\<close>

definition untagged_file :: string where
  "untagged_file = replicate 130 (CHR 0xFF)"

text \<open>A modern tag of declared size 0, followed by a legacy tag.\<close>

definition both_tags_file :: string where
  "both_tags_file =
     ''ID3'' @ [CHR 0x03, CHR 0x00, CHR 0x00] @ [CHR 0x00, CHR 0x00, CHR 0x00, CHR 0x00] @
     ''TAG'' @
     ''A Song Title                  '' @
     ''Some Artist'' @ replicate 19 (CHR 0x00) @
     ''An Album                      '' @
     ''1999'' @ replicate 31 (CHR 0x00)"

text \<open>
  A modern tag of declared size 11 whose only frame declares 20 payload bytes; the 20
  bytes after the frame header are audio data.
\<close>

definition overrun_file :: string where
  "overrun_file =
     ''ID3'' @ [CHR 0x03, CHR 0x00, CHR 0x00] @ [CHR 0x00, CHR 0x00, CHR 0x00, CHR 0x0B] @
     ''TIT2'' @ [CHR 0x00, CHR 0x00, CHR 0x00, CHR 0x14] @ [CHR 0x00, CHR 0x00] @
     ''audio-data-past-tag!''"

text \<open>
  A modern tag of declared size 26 whose only frame declares 6 payload bytes; the file
  ends after 4 of them.
\<close>

definition truncated_file :: string where
  "truncated_file =
     ''ID3'' @ [CHR 0x03, CHR 0x00, CHR 0x00] @ [CHR 0x00, CHR 0x00, CHR 0x00, CHR 0x1A] @
     ''TIT2'' @ [CHR 0x00, CHR 0x00, CHR 0x00, CHR 0x06] @ [CHR 0x00, CHR 0x00] @
     [CHR 0x00] @ ''Hel''"

text \<open>
  A modern tag of declared size 23 with two frames: a \<^verbatim>\<open>TIT2\<close> frame of size 0, then a
  frame of size 3 with the payload 0, \<^verbatim>\<open>Ab\<close> (a \<^verbatim>\<open>TPE1\<close> frame in the first file) or
  0, \<^verbatim>\<open>Hi\<close> (a second \<^verbatim>\<open>TIT2\<close> frame in the second file).
\<close>

definition empty_then_artist_file :: string where
  "empty_then_artist_file =
     ''ID3'' @ [CHR 0x03, CHR 0x00, CHR 0x00] @ [CHR 0x00, CHR 0x00, CHR 0x00, CHR 0x17] @
     ''TIT2'' @ [CHR 0x00, CHR 0x00, CHR 0x00, CHR 0x00] @ [CHR 0x00, CHR 0x00] @
     ''TPE1'' @ [CHR 0x00, CHR 0x00, CHR 0x00, CHR 0x03] @ [CHR 0x00, CHR 0x00] @
     [CHR 0x00] @ ''Ab''"

definition empty_then_title_file :: string where
  "empty_then_title_file =
     ''ID3'' @ [CHR 0x03, CHR 0x00, CHR 0x00] @ [CHR 0x00, CHR 0x00, CHR 0x00, CHR 0x17] @
     ''TIT2'' @ [CHR 0x00, CHR 0x00, CHR 0x00, CHR 0x00] @ [CHR 0x00, CHR 0x00] @
     ''TIT2'' @ [CHR 0x00, CHR 0x00, CHR 0x00, CHR 0x03] @ [CHR 0x00, CHR 0x00] @
     [CHR 0x00] @ ''Hi''"

definition empty_title_frame :: frame where
  "empty_title_frame = \<lparr>frame_id = ''TIT2'',
                        frame_size = [CHR 0x00, CHR 0x00, CHR 0x00, CHR 0x00],
                        frame_flags = [CHR 0x00, CHR 0x00],
                        frame_payload = []\<rparr>"

definition artist_frame :: frame where
  "artist_frame = \<lparr>frame_id = ''TPE1'',
                   frame_size = [CHR 0x00, CHR 0x00, CHR 0x00, CHR 0x03],
                   frame_flags = [CHR 0x00, CHR 0x00],
                   frame_payload = CHR 0x00 # ''Ab''\<rparr>"

text \<open>
  A modern tag of declared size 42: a \<^verbatim>\<open>TIT2\<close> frame, then the bytes 0, \<^verbatim>\<open>Hello\<close>, 0,
  then zero bytes up to the end of the tag. The frame declares the size 6 in the first
  file and 7 in the second.
\<close>

definition hello_size6_file :: string where
  "hello_size6_file =
     ''ID3'' @ [CHR 0x03, CHR 0x00, CHR 0x00] @ [CHR 0x00, CHR 0x00, CHR 0x00, CHR 0x2A] @
     ''TIT2'' @ [CHR 0x00, CHR 0x00, CHR 0x00, CHR 0x06] @ [CHR 0x00, CHR 0x00] @
     [CHR 0x00] @ ''Hello'' @ [CHR 0x00] @ replicate 25 (CHR 0x00)"

definition hello_size7_file :: string where
  "hello_size7_file =
     ''ID3'' @ [CHR 0x03, CHR 0x00, CHR 0x00] @ [CHR 0x00, CHR 0x00, CHR 0x00, CHR 0x2A] @
     ''TIT2'' @ [CHR 0x00, CHR 0x00, CHR 0x00, CHR 0x07] @ [CHR 0x00, CHR 0x00] @
     [CHR 0x00] @ ''Hello'' @ [CHR 0x00] @ replicate 25 (CHR 0x00)"

definition hello_frame :: frame where
  "hello_frame = \<lparr>frame_id = ''TIT2'',
                  frame_size = [CHR 0x00, CHR 0x00, CHR 0x00, CHR 0x07],
                  frame_flags = [CHR 0x00, CHR 0x00],
                  frame_payload = CHR 0x00 # ''Hello'' @ [CHR 0x00]\<rparr>"

definition padding_frame :: frame where
  "padding_frame = \<lparr>frame_id = [CHR 0x00, CHR 0x00, CHR 0x00, CHR 0x00],
                    frame_size = [CHR 0x00, CHR 0x00, CHR 0x00, CHR 0x00],
                    frame_flags = [CHR 0x00, CHR 0x00],
                    frame_payload = []\<rparr>"

lemmas eval_defs = readMetadata_def zero_uninit_def open_file_def
  hasID3v2Tag_def readID3v1Tag_def seekg_def read_def readID3v2Tag_def
  decodeSynchsafeInt_def char_to_int_def frameLoop.simps readFrame_def parseTextFrame_def Let_def

section \<open>Properties of the synch-safe integer decoder\<close>

text \<open>
  Claim C4. For every four bytes, bytes with the high bit set included, the decoder
  returns \<open>(b0 & 0x7F) << 21 | (b1 & 0x7F) << 14 | (b2 & 0x7F) << 7 | (b3 & 0x7F)\<close> over
  the unsigned byte values; the result is not negative and fits the 32-bit \<^verbatim>\<open>int\<close>, and
  there is no input on which the decoder fails.
\<close>

theorem decodeSynchsafeInt_value:
  "decodeSynchsafeInt [b0, b1, b2, b3] =
     ((push_bit 21 (of_char b0 AND 0x7F) OR push_bit 14 (of_char b1 AND 0x7F)) OR
      push_bit 7 (of_char b2 AND 0x7F)) OR (of_char b3 AND 0x7F) \<and>
   0 \<le> decodeSynchsafeInt [b0, b1, b2, b3] \<and>
   decodeSynchsafeInt [b0, b1, b2, b3] < 2 ^ 28"
proof (intro conjI)
  show "decodeSynchsafeInt [b0, b1, b2, b3] =
     ((push_bit 21 (of_char b0 AND 0x7F) OR push_bit 14 (of_char b1 AND 0x7F)) OR
      push_bit 7 (of_char b2 AND 0x7F)) OR (of_char b3 AND 0x7F)"
    by (simp add: decodeSynchsafeInt_septets low7_def)
  show "0 \<le> decodeSynchsafeInt [b0, b1, b2, b3]"
    by (rule decodeSynchsafeInt_nonneg)
  show "decodeSynchsafeInt [b0, b1, b2, b3] < 2 ^ 28"
    by (rule decodeSynchsafeInt_less)
qed

section \<open>Properties of the text frame decoder\<close>

lemma half_step: "i < n \<Longrightarrow> (n - i + 1) div 2 = Suc ((n - (i + 2) + 1) div 2)" for i n :: nat
  by presburger

text \<open>The pair loop started at \<open>i\<close> appends the characters at \<open>i + 1\<close>, \<open>i + 3\<close>, ...\<close>

lemma utf16_loop_positions:
  "utf16_loop t i acc =
     acc @ map (\<lambda>j. string_at t (i + 2 * j + 1)) [0..<(length t - i + 1) div 2]"
proof (induction t i acc rule: utf16_loop.induct)
  case (1 t i acc)
  show ?case
  proof (cases "i < length t")
    case True
    define m where "m = (length t - (i + 2) + 1) div 2"
    have m: "(length t - i + 1) div 2 = Suc m"
      unfolding m_def using True by (rule half_step)
    have "utf16_loop t i acc = utf16_loop t (i + 2) (acc @ [string_at t (i + 1)])"
      using True by (subst utf16_loop.simps) simp
    also have "\<dots> = (acc @ [string_at t (i + 1)]) @
        map (\<lambda>j. string_at t (i + 2 + 2 * j + 1)) [0..<m]"
      unfolding m_def by (rule "1.IH" [OF True])
    also have "\<dots> = acc @ map (\<lambda>j. string_at t (i + 2 * j + 1)) [0..<Suc m]"
      by (simp add: map_upt_Suc del: upt_Suc)
    finally show ?thesis by (simp only: m)
  next
    case False
    then show ?thesis by (subst utf16_loop.simps) simp
  qed
qed

lemma parseTextFrame_utf16:
  "parseTextFrame (CHR 0x01 # t) =
     map (\<lambda>j. string_at t (2 * j + 1)) [0..<(length t + 1) div 2]"
  by (simp add: parseTextFrame_def utf16_loop_positions)

lemma length_code_units: "length (code_units ps) = 2 * length ps"
  by (induction ps) (auto simp add: code_units_def)

lemma code_units_Cons: "code_units ((a, b) # ps) = a # b # code_units ps"
  by (simp add: code_units_def)

lemma code_units_second: "j < length ps \<Longrightarrow> code_units ps ! Suc (2 * j) = snd (ps ! j)"
proof (induction ps arbitrary: j)
  case Nil
  then show ?case by simp
next
  case (Cons p ps)
  obtain a b where p: "p = (a, b)" by (cases p)
  show ?case
  proof (cases j)
    case 0
    then show ?thesis by (simp add: p code_units_Cons)
  next
    case (Suc j')
    with Cons.prems have "j' < length ps" by simp
    then have "code_units ps ! Suc (2 * j') = snd (ps ! j')" by (rule Cons.IH)
    then show ?thesis by (simp add: p code_units_Cons Suc)
  qed
qed

text \<open>
  Claim C3. For every payload whose first byte is 1 and whose remaining bytes are N
  complete two-byte code units, the decoder returns the N-character string made of the
  second byte of each unit, in order.
\<close>

theorem parseTextFrame_utf16_pairs:
  "parseTextFrame (CHR 0x01 # code_units pairs) = map snd pairs \<and>
   length (parseTextFrame (CHR 0x01 # code_units pairs)) = length pairs"
proof -
  have "parseTextFrame (CHR 0x01 # code_units pairs) =
          map (\<lambda>j. string_at (code_units pairs) (2 * j + 1)) [0..<length pairs]"
    by (simp add: parseTextFrame_utf16 length_code_units)
  also have "\<dots> = map (\<lambda>j. snd (pairs ! j)) [0..<length pairs]"
    by (simp add: string_at_def length_code_units code_units_second)
  also have "\<dots> = map snd pairs"
    by (simp add: map_nth flip: map_map [unfolded comp_def])
  finally show ?thesis by simp
qed

text \<open>
  Claim C10. For every payload with encoding indicator 1 whose text has the odd length
  \<open>2k + 1\<close>, the pair loop reads the positions 1, 3, ..., \<open>2k + 1\<close> of the text; the
  last of them is one past the last text byte, where the string holds its null
  terminator. The decoder returns \<open>k + 1\<close> characters, the last one the NUL byte.
\<close>

theorem parseTextFrame_utf16_odd:
  assumes "length t = 2 * k + 1"
  shows "parseTextFrame (CHR 0x01 # t) = map (\<lambda>j. string_at t (2 * j + 1)) [0..<k + 1] \<and>
         2 * k + 1 = length t \<and> string_at t (2 * k + 1) = CHR 0x00 \<and>
         parseTextFrame (CHR 0x01 # t) = map (\<lambda>j. t ! (2 * j + 1)) [0..<k] @ [CHR 0x00] \<and>
         length (parseTextFrame (CHR 0x01 # t)) = k + 1 \<and>
         last (parseTextFrame (CHR 0x01 # t)) = CHR 0x00"
proof -
  have p: "parseTextFrame (CHR 0x01 # t) = map (\<lambda>j. string_at t (2 * j + 1)) [0..<k + 1]"
    by (simp add: parseTextFrame_utf16 assms)
  have z: "string_at t (2 * k + 1) = CHR 0x00"
    by (simp add: string_at_def assms)
  have "map (\<lambda>j. string_at t (2 * j + 1)) [0..<k] = map (\<lambda>j. t ! (2 * j + 1)) [0..<k]"
    by (simp add: string_at_def assms)
  with z have q: "map (\<lambda>j. string_at t (2 * j + 1)) [0..<k + 1] =
      map (\<lambda>j. t ! (2 * j + 1)) [0..<k] @ [CHR 0x00]"
    by simp
  show ?thesis using p q z assms by simp
qed

theorem parseTextFrame_utf16_odd_witness:
  "length ''abc'' = 2 * 1 + 1 \<and> parseTextFrame (CHR 0x01 # ''abc'') = [CHR ''b'', CHR 0x00]"
  using parseTextFrame_utf16_odd [of "''abc''" 1] by (simp add: string_at_def)

section \<open>Properties of the byte source\<close>

lemma read_full:
  assumes "\<not> failbit f" and "pos f + n \<le> length (data f)"
  shows "read f s n = (take n (drop (pos f) (data f)), f\<lparr>pos := pos f + n\<rparr>)"
  using assms by (simp add: read_def Let_def)

lemma read_failed: "failbit f \<Longrightarrow> read f s n = (map s [0..<n], f)"
  by (simp add: read_def)

text \<open>
  A read comes up short exactly when the source has fewer bytes left than were asked for;
  it then stores the bytes that are left and keeps the rest of the array.
\<close>

lemma read_short:
  assumes "\<not> failbit f" and "pos f \<le> length (data f)" and "length (data f) < pos f + n"
  shows "read f s n = (drop (pos f) (data f) @ map s [length (data f) - pos f..<n],
                       f\<lparr>pos := length (data f), failbit := True\<rparr>)"
  using assms by (simp add: read_def Let_def)

lemma read_failbit:
  assumes "pos f \<le> length (data f)"
  shows "failbit (snd (read f s n)) = (failbit f \<or> length (data f) < pos f + n)"
  using assms by (auto simp add: read_def Let_def)

lemma seekg_beg: "\<not> failbit f \<Longrightarrow> seekg f 0 ios_beg = f\<lparr>pos := 0\<rparr>"
  by (simp add: seekg_def)

lemma seekg_failed: "failbit f \<Longrightarrow> seekg f off dir = f"
  by (simp add: seekg_def)

lemma seekg_end_128:
  assumes "\<not> failbit f" and "128 \<le> length (data f)"
  shows "seekg f (- 128) ios_end = f\<lparr>pos := length (data f) - 128\<rparr>"
proof -
  have "nat (int (length (data f)) - 128) = length (data f) - 128"
    by simp
  with assms show ?thesis by (simp add: seekg_def Let_def)
qed

lemma read_pos:
  assumes "read f s n = (xs, f')"
  shows "pos f \<le> pos f'" and "pos f' \<le> pos f + n" and "data f' = data f" and "length xs = n"
  using assms by (auto simp add: read_def Let_def split: if_splits)

lemma read_header_bytes:
  assumes "\<not> failbit f" and "take 10 (drop (pos f) (data f)) = hdr" and "length hdr = 10"
  shows "read f s 10 = (hdr, f\<lparr>pos := pos f + 10\<rparr>)"
proof -
  have "length (take 10 (drop (pos f) (data f))) = 10"
    using assms(2,3) by simp
  then have "pos f + 10 \<le> length (data f)"
    by simp
  with assms(1) have "read f s 10 = (take 10 (drop (pos f) (data f)), f\<lparr>pos := pos f + 10\<rparr>)"
    by (rule read_full)
  with assms(2) show ?thesis by simp
qed

section \<open>Properties of the detector and of the legacy tag reader\<close>

lemma take3_iff:
  assumes "3 \<le> length xs"
  shows "(take 3 xs = [a, b, c]) = (xs ! 0 = a \<and> xs ! 1 = b \<and> xs ! 2 = c)"
proof -
  obtain x y z r where "xs = x # y # z # r"
    using assms by (cases xs; cases "tl xs"; cases "tl (tl xs)") auto
  then show ?thesis by (auto simp add: numeral_3_eq_3)
qed

lemma hasID3v2Tag_open:
  assumes "3 \<le> length d"
  shows "hasID3v2Tag header0 (open_file d) =
           (take 3 d = ''ID3'', \<lparr>data = d, pos = 3, failbit = False\<rparr>)"
proof -
  have s: "seekg (open_file d) 0 ios_beg = open_file d"
    by (simp add: seekg_def open_file_def)
  have r: "read (open_file d) header0 3 = (take 3 d, \<lparr>data = d, pos = 3, failbit = False\<rparr>)"
    using assms by (simp add: read_full open_file_def)
  have "3 \<le> length (take 3 d)" using assms by simp
  then have "(take 3 d ! 0 = CHR ''I'' \<and> take 3 d ! 1 = CHR ''D'' \<and> take 3 d ! 2 = CHR ''3'')
               = (take 3 (take 3 d) = ''ID3'')"
    by (simp only: take3_iff)
  then show ?thesis
    by (simp add: hasID3v2Tag_def s r)
qed

lemma readID3v1Tag_block:
  assumes "\<not> failbit f" and "128 \<le> length (data f)"
  shows "readID3v1Tag buffer0 f metadata =
           (if take 3 (last128 (data f)) = ''TAG''
            then Inr (f\<lparr>pos := length (data f)\<rparr>,
                      metadata\<lparr>title := take 30 (drop 3 (last128 (data f))),
                               artist := take 30 (drop 33 (last128 (data f))),
                               album := take 30 (drop 63 (last128 (data f))),
                               year := take 4 (drop 93 (last128 (data f)))\<rparr>)
            else Inl (runtime_error ''No ID3v1 tag found in file.''))"
proof -
  let ?f1 = "f\<lparr>pos := length (data f) - 128\<rparr>"
  have s: "seekg f (- 128) ios_end = ?f1"
    using assms by (rule seekg_end_128)
  have "read ?f1 buffer0 128 = (take 128 (drop (pos ?f1) (data ?f1)), ?f1\<lparr>pos := pos ?f1 + 128\<rparr>)"
    using assms by (intro read_full) simp_all
  then have r: "read ?f1 buffer0 128 = (last128 (data f), f\<lparr>pos := length (data f)\<rparr>)"
    using assms by (simp add: last128_def)
  have "3 \<le> length (last128 (data f))"
    using assms by (simp add: last128_def)
  then have t: "(last128 (data f) ! 0 = CHR ''T'' \<and> last128 (data f) ! 1 = CHR ''A'' \<and>
                  last128 (data f) ! 2 = CHR ''G'') = (take 3 (last128 (data f)) = ''TAG'')"
    by (simp only: take3_iff)
  show ?thesis
    unfolding readID3v1Tag_def s Let_def r prod.case t by (rule refl)
qed

lemma last128_length: "128 \<le> length d \<Longrightarrow> length (last128 d) = 128"
  by (simp add: last128_def)

text \<open>
  Claim C5. For every input whose last 128 bytes begin with \<open>TAG\<close>, the legacy tag
  reader (on a stream that has not failed, as \<^verbatim>\<open>readMetadata\<close> hands it over) sets the
  title to bytes 3..33, the artist to bytes 33..63, the album to bytes 63..93 and the
  year to bytes 93..97 of that block: 30, 30, 30 and 4 bytes, copied as they are. When
  the input takes the legacy path, this is the record \<^verbatim>\<open>readMetadata\<close> returns.
\<close>

theorem readID3v1Tag_fields:
  assumes "128 \<le> length d" and "take 3 (last128 d) = ''TAG''"
  shows "(\<not> failbit f \<and> data f = d \<longrightarrow>
            readID3v1Tag prior f metadata =
              Inr (f\<lparr>pos := length d\<rparr>,
                   metadata\<lparr>title := take 30 (drop 3 (last128 d)),
                            artist := take 30 (drop 33 (last128 d)),
                            album := take 30 (drop 63 (last128 d)),
                            year := take 4 (drop 93 (last128 d))\<rparr>)) \<and>
         (files filepath = Some d \<and> \<not> fst (hasID3v2Tag (detect_header u) (open_file d)) \<longrightarrow>
            readMetadata u files filepath =
              Inr \<lparr>title = take 30 (drop 3 (last128 d)),
                   artist = take 30 (drop 33 (last128 d)),
                   album = take 30 (drop 63 (last128 d)),
                   year = take 4 (drop 93 (last128 d))\<rparr>) \<and>
         length (take 30 (drop 3 (last128 d))) = 30 \<and>
         length (take 30 (drop 33 (last128 d))) = 30 \<and>
         length (take 30 (drop 63 (last128 d))) = 30 \<and>
         length (take 4 (drop 93 (last128 d))) = 4"
proof (intro conjI impI)
  assume "\<not> failbit f \<and> data f = d"
  then show "readID3v1Tag prior f metadata =
              Inr (f\<lparr>pos := length d\<rparr>,
                   metadata\<lparr>title := take 30 (drop 3 (last128 d)),
                            artist := take 30 (drop 33 (last128 d)),
                            album := take 30 (drop 63 (last128 d)),
                            year := take 4 (drop 93 (last128 d))\<rparr>)"
    using assms by (simp add: readID3v1Tag_block)
next
  assume a: "files filepath = Some d \<and> \<not> fst (hasID3v2Tag (detect_header u) (open_file d))"
  let ?f = "\<lparr>data = d, pos = 3, failbit = False\<rparr>"
  have h: "hasID3v2Tag (detect_header u) (open_file d) = (take 3 d = ''ID3'', ?f)"
    using assms(1) by (intro hasID3v2Tag_open) simp
  have "\<not> failbit ?f" and "128 \<le> length (data ?f)"
    using assms(1) by simp_all
  then have "readID3v1Tag (v1_buffer u) ?f \<lparr>title = [], artist = [], album = [], year = []\<rparr> =
      (if take 3 (last128 (data ?f)) = ''TAG''
       then Inr (?f\<lparr>pos := length (data ?f)\<rparr>,
                 \<lparr>title = [], artist = [], album = [], year = []\<rparr>
                   \<lparr>title := take 30 (drop 3 (last128 (data ?f))),
                    artist := take 30 (drop 33 (last128 (data ?f))),
                    album := take 30 (drop 63 (last128 (data ?f))),
                    year := take 4 (drop 93 (last128 (data ?f)))\<rparr>)
       else Inl (runtime_error ''No ID3v1 tag found in file.''))"
    by (rule readID3v1Tag_block)
  then show "readMetadata u files filepath =
              Inr \<lparr>title = take 30 (drop 3 (last128 d)),
                   artist = take 30 (drop 33 (last128 d)),
                   album = take 30 (drop 63 (last128 d)),
                   year = take 4 (drop 93 (last128 d))\<rparr>"
    using a assms(2) h by (simp add: readMetadata_def)
qed (use assms(1) in \<open>simp_all add: last128_length\<close>)

theorem readID3v1Tag_fields_witness:
  "128 \<le> length legacy_file \<and> take 3 (last128 legacy_file) = ''TAG'' \<and>
   \<not> failbit \<lparr>data = legacy_file, pos = 3, failbit = False\<rparr> \<and>
   readID3v1Tag (\<lambda>i. CHR 0x00) \<lparr>data = legacy_file, pos = 3, failbit = False\<rparr>
       \<lparr>title = [], artist = [], album = [], year = []\<rparr> =
     Inr (\<lparr>data = legacy_file, pos = 133, failbit = False\<rparr>,
          \<lparr>title = ''A Song Title                  '',
           artist = ''Some Artist'' @ replicate 19 (CHR 0x00),
           album = ''An Album                      '',
           year = ''1999''\<rparr>) \<and>
   [''song.mp3'' \<mapsto> legacy_file] ''song.mp3'' = Some legacy_file \<and>
   \<not> fst (hasID3v2Tag (detect_header zero_uninit) (open_file legacy_file)) \<and>
   readMetadata zero_uninit [''song.mp3'' \<mapsto> legacy_file] ''song.mp3'' =
     Inr \<lparr>title = ''A Song Title                  '',
          artist = ''Some Artist'' @ replicate 19 (CHR 0x00),
          album = ''An Album                      '',
          year = ''1999''\<rparr>"
proof -
  have a: "128 \<le> length legacy_file"
    by (simp add: legacy_file_def)
  have b: "take 3 (last128 legacy_file) = ''TAG''"
    by (simp add: legacy_file_def last128_def)
  have c: "\<not> fst (hasID3v2Tag (detect_header zero_uninit) (open_file legacy_file))"
    by (simp add: hasID3v2Tag_def seekg_def read_def open_file_def legacy_file_def)
  have d: "last128 legacy_file = ''TAG'' @
     ''A Song Title                  '' @
     ''Some Artist'' @ replicate 19 (CHR 0x00) @
     ''An Album                      '' @
     ''1999'' @ replicate 31 (CHR 0x00)"
    by (simp add: legacy_file_def last128_def)
  have e: "length legacy_file = 133"
    by (simp add: legacy_file_def)
  show ?thesis
    using readID3v1Tag_fields [OF a b, where files = "[''song.mp3'' \<mapsto> legacy_file]"
        and filepath = "''song.mp3''" and u = zero_uninit
        and f = "\<lparr>data = legacy_file, pos = 3, failbit = False\<rparr>"
        and prior = "\<lambda>i. CHR 0x00"
        and metadata = "\<lparr>title = [], artist = [], album = [], year = []\<rparr>"] a b c
    by (simp add: d e)
qed

text \<open>
  Claim C7, as the code has it. For every input of at least 128 bytes that takes the
  legacy path and whose last 128 bytes do not begin with \<open>TAG\<close>, \<^verbatim>\<open>readMetadata\<close> throws
  the exception that no legacy tag was found.
\<close>

theorem readMetadata_no_legacy_tag:
  assumes "files filepath = Some d" and "128 \<le> length d"
    and "\<not> fst (hasID3v2Tag (detect_header u) (open_file d))"
    and "take 3 (last128 d) \<noteq> ''TAG''"
  shows "readMetadata u files filepath = Inl (runtime_error ''No ID3v1 tag found in file.'')"
proof -
  let ?f = "\<lparr>data = d, pos = 3, failbit = False\<rparr>"
  have h: "hasID3v2Tag (detect_header u) (open_file d) = (take 3 d = ''ID3'', ?f)"
    using assms(2) by (intro hasID3v2Tag_open) simp
  have "\<not> failbit ?f" and "128 \<le> length (data ?f)"
    using assms(2) by simp_all
  then have "readID3v1Tag (v1_buffer u) ?f \<lparr>title = [], artist = [], album = [], year = []\<rparr> =
      (if take 3 (last128 (data ?f)) = ''TAG''
       then Inr (?f\<lparr>pos := length (data ?f)\<rparr>,
                 \<lparr>title = [], artist = [], album = [], year = []\<rparr>
                   \<lparr>title := take 30 (drop 3 (last128 (data ?f))),
                    artist := take 30 (drop 33 (last128 (data ?f))),
                    album := take 30 (drop 63 (last128 (data ?f))),
                    year := take 4 (drop 93 (last128 (data ?f)))\<rparr>)
       else Inl (runtime_error ''No ID3v1 tag found in file.''))"
    by (rule readID3v1Tag_block)
  then show ?thesis
    using assms(1,3,4) h by (simp add: readMetadata_def)
qed

theorem readMetadata_no_legacy_tag_witness:
  "[''raw.mp3'' \<mapsto> untagged_file] ''raw.mp3'' = Some untagged_file \<and>
   128 \<le> length untagged_file \<and>
   \<not> fst (hasID3v2Tag (detect_header zero_uninit) (open_file untagged_file)) \<and>
   take 3 (last128 untagged_file) \<noteq> ''TAG'' \<and>
   readMetadata zero_uninit [''raw.mp3'' \<mapsto> untagged_file] ''raw.mp3'' =
     Inl (runtime_error ''No ID3v1 tag found in file.'')"
proof -
  have a: "[''raw.mp3'' \<mapsto> untagged_file] ''raw.mp3'' = Some untagged_file"
    by simp
  have b: "128 \<le> length untagged_file"
    by (simp add: untagged_file_def)
  have h: "hasID3v2Tag (detect_header zero_uninit) (open_file untagged_file) =
      (take 3 untagged_file = ''ID3'', \<lparr>data = untagged_file, pos = 3, failbit = False\<rparr>)"
    using b by (intro hasID3v2Tag_open) simp
  have t: "take 3 untagged_file \<noteq> ''ID3''"
    by (simp add: untagged_file_def numeral_3_eq_3)
  have c: "\<not> fst (hasID3v2Tag (detect_header zero_uninit) (open_file untagged_file))"
    by (simp add: h t)
  have d: "take 3 (last128 untagged_file) \<noteq> ''TAG''"
    by (simp add: untagged_file_def last128_def numeral_3_eq_3)
  show ?thesis
    using readMetadata_no_legacy_tag [where files = "[''raw.mp3'' \<mapsto> untagged_file]"
        and filepath = "''raw.mp3''" and d = untagged_file and u = zero_uninit, OF a b c d] a b c d
    by simp
qed

text \<open>
  Claim C7 as stated fails on a file of fewer than 128 bytes. On the five-byte file
  \<open>audio\<close> the seek to 128 bytes before the end fails, the read stores nothing, and the
  marker test looks at what \<^verbatim>\<open>buffer\<close> held before. When that is \<open>TAG\<close>, \<^verbatim>\<open>readMetadata\<close>
  throws nothing and returns a record made of the bytes the array held, although the
  file takes the legacy path and has no \<open>TAG\<close> in it.
\<close>

theorem legacy_path_without_block:
  "length ''audio'' < 128 \<and>
   \<not> fst (hasID3v2Tag (detect_header (zero_uninit\<lparr>v1_buffer := tag_in_buffer\<rparr>)) (open_file ''audio'')) \<and>
   take 3 (last128 ''audio'') \<noteq> ''TAG'' \<and>
   readMetadata (zero_uninit\<lparr>v1_buffer := tag_in_buffer\<rparr>) [''short.mp3'' \<mapsto> ''audio''] ''short.mp3'' =
     Inr \<lparr>title = replicate 30 (CHR ''x''), artist = replicate 30 (CHR ''x''),
          album = replicate 30 (CHR ''x''), year = replicate 4 (CHR ''x'')\<rparr>"
  by code_simp

text \<open>
  Claim C6, as the code has it. For every input of at least 3 bytes, \<^verbatim>\<open>readMetadata\<close> runs
  the modern tag reader if and only if the first 3 bytes of the source are \<open>ID3\<close>
  (whatever the last 128 bytes are), and runs the legacy tag reader otherwise. Each reader
  gets the stream as the detector leaves it, at position 3, and the empty record.
\<close>

theorem readMetadata_dispatch:
  assumes "files filepath = Some d" and "3 \<le> length d"
  shows "fst (hasID3v2Tag (detect_header u) (open_file d)) = (take 3 d = ''ID3'') \<and>
         (take 3 d = ''ID3'' \<longrightarrow>
            readMetadata u files filepath =
              Inr (snd (readID3v2Tag (v2_header u) (v2_frameHeader u)
                         \<lparr>data = d, pos = 3, failbit = False\<rparr>
                         \<lparr>title = [], artist = [], album = [], year = []\<rparr>))) \<and>
         (take 3 d \<noteq> ''ID3'' \<longrightarrow>
            readMetadata u files filepath =
              (case readID3v1Tag (v1_buffer u) \<lparr>data = d, pos = 3, failbit = False\<rparr>
                      \<lparr>title = [], artist = [], album = [], year = []\<rparr> of
                 Inl e \<Rightarrow> Inl e
               | Inr (file', metadata') \<Rightarrow> Inr metadata'))"
proof -
  have h: "hasID3v2Tag (detect_header u) (open_file d) =
      (take 3 d = ''ID3'', \<lparr>data = d, pos = 3, failbit = False\<rparr>)"
    using assms(2) by (rule hasID3v2Tag_open)
  show ?thesis
    using assms(1) by (simp add: readMetadata_def h split: prod.splits)
qed

theorem readMetadata_dispatch_witness:
  "[''both.mp3'' \<mapsto> both_tags_file] ''both.mp3'' = Some both_tags_file \<and>
   3 \<le> length both_tags_file \<and>
   take 3 both_tags_file = ''ID3'' \<and> take 3 (last128 both_tags_file) = ''TAG'' \<and>
   fst (hasID3v2Tag (detect_header zero_uninit) (open_file both_tags_file)) \<and>
   readMetadata zero_uninit [''both.mp3'' \<mapsto> both_tags_file] ''both.mp3'' =
     Inr (snd (readID3v2Tag (v2_header zero_uninit) (v2_frameHeader zero_uninit)
                \<lparr>data = both_tags_file, pos = 3, failbit = False\<rparr>
                \<lparr>title = [], artist = [], album = [], year = []\<rparr>)) \<and>
   readMetadata zero_uninit [''both.mp3'' \<mapsto> both_tags_file] ''both.mp3'' =
     Inr \<lparr>title = [], artist = [], album = [], year = []\<rparr> \<and>
   [''song.mp3'' \<mapsto> legacy_file] ''song.mp3'' = Some legacy_file \<and>
   3 \<le> length legacy_file \<and> take 3 legacy_file \<noteq> ''ID3'' \<and>
   readMetadata zero_uninit [''song.mp3'' \<mapsto> legacy_file] ''song.mp3'' =
     (case readID3v1Tag (v1_buffer zero_uninit) \<lparr>data = legacy_file, pos = 3, failbit = False\<rparr>
             \<lparr>title = [], artist = [], album = [], year = []\<rparr> of
        Inl e \<Rightarrow> Inl e
      | Inr (file', metadata') \<Rightarrow> Inr metadata')"
proof -
  have a: "[''both.mp3'' \<mapsto> both_tags_file] ''both.mp3'' = Some both_tags_file"
    by simp
  have b: "3 \<le> length both_tags_file"
    by (simp add: both_tags_file_def)
  have c: "take 3 both_tags_file = ''ID3''"
    by (simp add: both_tags_file_def)
  have d: "take 3 (last128 both_tags_file) = ''TAG''"
    by (simp add: both_tags_file_def last128_def)
  have e: "snd (readID3v2Tag (v2_header zero_uninit) (v2_frameHeader zero_uninit)
                \<lparr>data = both_tags_file, pos = 3, failbit = False\<rparr>
                \<lparr>title = [], artist = [], album = [], year = []\<rparr>) =
           \<lparr>title = [], artist = [], album = [], year = []\<rparr>"
    by (simp add: both_tags_file_def eval_defs)
  have a': "[''song.mp3'' \<mapsto> legacy_file] ''song.mp3'' = Some legacy_file"
    by simp
  have b': "3 \<le> length legacy_file"
    by (simp add: legacy_file_def)
  have c': "take 3 legacy_file \<noteq> ''ID3''"
    by (simp add: legacy_file_def)
  show ?thesis
    using readMetadata_dispatch [where files = "[''both.mp3'' \<mapsto> both_tags_file]"
        and filepath = "''both.mp3''" and d = both_tags_file and u = zero_uninit, OF a b]
      readMetadata_dispatch [where files = "[''song.mp3'' \<mapsto> legacy_file]"
        and filepath = "''song.mp3''" and d = legacy_file and u = zero_uninit, OF a' b']
      a b c d e a' b' c'
    by simp
qed

text \<open>
  Claim C6 as stated fails on a source of fewer than 3 bytes. On the two-byte file
  \<open>ID\<close> the read of the detector is short and \<^verbatim>\<open>header[2]\<close> keeps what the array held
  before; when that byte is \<open>3\<close> the detector answers true and the modern tag reader
  runs (here it returns the empty record, where the legacy tag reader throws), although
  the first bytes of the source are not \<open>ID3\<close>.
\<close>

theorem detector_short_source:
  "take 3 ''ID'' \<noteq> ''ID3'' \<and>
   fst (hasID3v2Tag (\<lambda>i. CHR ''3'') (open_file ''ID'')) \<and>
   readMetadata (zero_uninit\<lparr>detect_header := (\<lambda>i. CHR ''3'')\<rparr>)
       [''short.mp3'' \<mapsto> ''ID''] ''short.mp3'' =
     Inr \<lparr>title = [], artist = [], album = [], year = []\<rparr> \<and>
   readID3v1Tag (\<lambda>i. CHR 0x00) (snd (hasID3v2Tag (\<lambda>i. CHR ''3'') (open_file ''ID'')))
       \<lparr>title = [], artist = [], album = [], year = []\<rparr> =
     Inl (runtime_error ''No ID3v1 tag found in file.'')"
  by (simp add: eval_defs)

section \<open>Properties of the modern tag reader\<close>

lemma decodeSynchsafeInt_append:
  "length size_bytes = 4 \<Longrightarrow> decodeSynchsafeInt (size_bytes @ r) = decodeSynchsafeInt size_bytes"
  by (simp add: decodeSynchsafeInt_def nth_append)

lemma readFrame_pos:
  assumes "readFrame frameHeader0 f metadata bytesRead = (f', metadata', bytesRead')"
  shows "int (pos f') - int (pos f) \<le> bytesRead' - bytesRead"
proof -
  obtain frameHeader f1 where r: "read f frameHeader0 10 = (frameHeader, f1)"
    by (cases "read f frameHeader0 10")
  define frameSize where "frameSize = decodeSynchsafeInt (drop 4 frameHeader)"
  have b: "bytesRead' = bytesRead + 10 + frameSize"
    using assms r by (auto simp add: readFrame_def Let_def frameSize_def split: prod.splits if_splits)
  have p1: "pos f1 \<le> pos f + 10"
    using r by (rule read_pos)
  show ?thesis
  proof (cases "frameSize > 0")
    case True
    obtain frameContent f2 where r2: "read f1 (\<lambda>_. CHR 0x00) (nat frameSize) = (frameContent, f2)"
      by (cases "read f1 (\<lambda>_. CHR 0x00) (nat frameSize)")
    have "f' = f2"
      using assms r r2 True by (auto simp add: readFrame_def Let_def frameSize_def)
    moreover have "pos f2 \<le> pos f1 + nat frameSize"
      using r2 by (rule read_pos)
    ultimately show ?thesis using p1 b True by simp
  next
    case False
    then have "f' = f1"
      using assms r by (auto simp add: readFrame_def Let_def frameSize_def)
    moreover have "0 \<le> frameSize"
      unfolding frameSize_def by (rule decodeSynchsafeInt_nonneg)
    ultimately show ?thesis using p1 b by simp
  qed
qed

lemma frameLoop_exit:
  assumes "frameLoop frameHeader0 k tagSize f metadata bytesRead = (f', metadata', bytesRead')"
  shows "tagSize \<le> bytesRead' \<and> int (pos f') - int (pos f) \<le> bytesRead' - bytesRead \<and>
         (bytesRead < tagSize \<longrightarrow> bytesRead' < tagSize + 10 + 2 ^ 28)"
  using assms
proof (induction frameHeader0 k tagSize f metadata bytesRead rule: frameLoop.induct)
  case (1 frameHeader0 k tagSize f metadata bytesRead)
  show ?case
  proof (cases "bytesRead < tagSize")
    case False
    then have "frameLoop frameHeader0 k tagSize f metadata bytesRead = (f, metadata, bytesRead)"
      by (subst frameLoop.simps) simp
    with "1.prems" False show ?thesis by simp
  next
    case True
    obtain f1 metadata1 bytesRead1 where
      rf: "readFrame (frameHeader0 k) f metadata bytesRead = (f1, metadata1, bytesRead1)"
      by (cases "readFrame (frameHeader0 k) f metadata bytesRead")
    have p: "int (pos f1) - int (pos f) \<le> bytesRead1 - bytesRead"
      using rf by (rule readFrame_pos)
    have u: "bytesRead1 < bytesRead + 10 + 2 ^ 28"
      using rf by (rule readFrame_bytesRead)
    show ?thesis
    proof (cases "tagSize \<le> bytesRead1")
      case True
      have "frameLoop frameHeader0 k tagSize f metadata bytesRead = (f1, metadata1, bytesRead1)"
        using \<open>bytesRead < tagSize\<close> rf True by (subst frameLoop.simps) simp
      with "1.prems" have "f' = f1" "bytesRead' = bytesRead1" by simp_all
      with p u True \<open>bytesRead < tagSize\<close> show ?thesis by simp
    next
      case False
      have "frameLoop frameHeader0 k tagSize f metadata bytesRead =
              frameLoop frameHeader0 (k + 1) tagSize f1 metadata1 bytesRead1"
        using \<open>bytesRead < tagSize\<close> rf False by (subst frameLoop.simps) simp
      with "1.prems" have
        "frameLoop frameHeader0 (k + 1) tagSize f1 metadata1 bytesRead1 = (f', metadata', bytesRead')"
        by simp
      with \<open>bytesRead < tagSize\<close> rf [symmetric] False
      have "tagSize \<le> bytesRead' \<and> int (pos f') - int (pos f1) \<le> bytesRead' - bytesRead1 \<and>
         (bytesRead1 < tagSize \<longrightarrow> bytesRead' < tagSize + 10 + 2 ^ 28)"
        by (intro "1.IH") simp_all
      with p False show ?thesis by simp
    qed
  qed
qed

text \<open>
  In \<^verbatim>\<open>readID3v2Tag\<close> the tag size comes from the decoder and the count starts at 10, so
  \<^verbatim>\<open>bytesRead\<close> stays in the range of the 32-bit \<^verbatim>\<open>int\<close>: the count over the integers is
  the count of the program.
\<close>

lemma frameLoop_count_range:
  assumes "frameLoop frameHeader0 k tagSize f metadata bytesRead = (f', metadata', bytesRead')"
    and "tagSize < 2 ^ 28" and "bytesRead < 2 ^ 28"
  shows "bytesRead' < 2 ^ 31"
proof (cases "bytesRead < tagSize")
  case True
  with frameLoop_exit [OF assms(1)] have "bytesRead' < tagSize + 10 + 2 ^ 28"
    by simp
  with assms(2) show ?thesis by simp
next
  case False
  then have "frameLoop frameHeader0 k tagSize f metadata bytesRead = (f, metadata, bytesRead)"
    by (subst frameLoop.simps) simp
  with assms(1,3) show ?thesis by simp
qed

text \<open>
  Claim C1, as the code has it. The loop is a total function: it terminates on every
  input. It stops exactly when \<^verbatim>\<open>bytesRead\<close> (10 for the tag header, then 10 for each
  frame header plus the declared frame size) has reached the declared tag size: at a
  count that has reached it the loop leaves the stream and the record as they are, below
  it the loop takes one more frame. The bytes its reads consume are at most the growth of
  \<^verbatim>\<open>bytesRead\<close>; the last frame is read in full, so the final count, and the reads with
  it, can pass the declared tag size by up to the last frame's header and declared size.
\<close>

theorem frameLoop_stops_at_tagSize:
  "(tagSize \<le> bytesRead \<longrightarrow>
      frameLoop frameHeader0 k tagSize f metadata bytesRead = (f, metadata, bytesRead)) \<and>
   (bytesRead < tagSize \<longrightarrow>
      frameLoop frameHeader0 k tagSize f metadata bytesRead =
        (case readFrame (frameHeader0 k) f metadata bytesRead of
           (f1, metadata1, bytesRead1) \<Rightarrow>
             frameLoop frameHeader0 (k + 1) tagSize f1 metadata1 bytesRead1)) \<and>
   (\<forall>f' metadata' bytesRead'.
      frameLoop frameHeader0 k tagSize f metadata bytesRead = (f', metadata', bytesRead') \<longrightarrow>
        tagSize \<le> bytesRead' \<and>
        int (pos f') - int (pos f) \<le> bytesRead' - bytesRead \<and>
        (bytesRead < tagSize \<longrightarrow> bytesRead' < tagSize + 10 + 2 ^ 28))"
proof (intro conjI impI allI)
  assume "tagSize \<le> bytesRead"
  then show "frameLoop frameHeader0 k tagSize f metadata bytesRead = (f, metadata, bytesRead)"
    by (subst frameLoop.simps) simp
next
  assume less: "bytesRead < tagSize"
  obtain f1 metadata1 bytesRead1 where
    rf: "readFrame (frameHeader0 k) f metadata bytesRead = (f1, metadata1, bytesRead1)"
    by (cases "readFrame (frameHeader0 k) f metadata bytesRead")
  have stop: "tagSize \<le> bytesRead1 \<Longrightarrow>
      frameLoop frameHeader0 (k + 1) tagSize f1 metadata1 bytesRead1 = (f1, metadata1, bytesRead1)"
    by (subst frameLoop.simps) simp
  show "frameLoop frameHeader0 k tagSize f metadata bytesRead =
        (case readFrame (frameHeader0 k) f metadata bytesRead of
           (f1, metadata1, bytesRead1) \<Rightarrow>
             frameLoop frameHeader0 (k + 1) tagSize f1 metadata1 bytesRead1)"
    using less rf stop by (subst frameLoop.simps) simp
next
  fix f' metadata' bytesRead'
  assume "frameLoop frameHeader0 k tagSize f metadata bytesRead = (f', metadata', bytesRead')"
  then have e: "tagSize \<le> bytesRead' \<and> int (pos f') - int (pos f) \<le> bytesRead' - bytesRead \<and>
         (bytesRead < tagSize \<longrightarrow> bytesRead' < tagSize + 10 + 2 ^ 28)"
    by (rule frameLoop_exit)
  from e show "tagSize \<le> bytesRead'" by simp
  from e show "int (pos f') - int (pos f) \<le> bytesRead' - bytesRead" by simp
  { assume "bytesRead < tagSize"
    with e show "bytesRead' < tagSize + 10 + 2 ^ 28" by simp }
qed

theorem frameLoop_stops_at_tagSize_witness:
  "(10 :: int) < 11 \<and>
   frameLoop (\<lambda>k i. CHR 0x00) 0 11 \<lparr>data = overrun_file, pos = 10, failbit = False\<rparr>
       \<lparr>title = [], artist = [], album = [], year = []\<rparr> 10 =
     (\<lparr>data = overrun_file, pos = 40, failbit = False\<rparr>,
      \<lparr>title = ''udio-data-past-tag!'', artist = [], album = [], year = []\<rparr>, 40) \<and>
   (11 :: int) \<le> 40 \<and> int 40 - int 10 \<le> (40 :: int) - 10"
proof -
  have "frameLoop (\<lambda>k i. CHR 0x00) 0 11 \<lparr>data = overrun_file, pos = 10, failbit = False\<rparr>
       \<lparr>title = [], artist = [], album = [], year = []\<rparr> 10 =
     (\<lparr>data = overrun_file, pos = 40, failbit = False\<rparr>,
      \<lparr>title = ''udio-data-past-tag!'', artist = [], album = [], year = []\<rparr>, 40)"
    by (simp add: overrun_file_def eval_defs)
  then show ?thesis
    using frameLoop_stops_at_tagSize [of 11 10 "\<lambda>k i. CHR 0x00" 0
        "\<lparr>data = overrun_file, pos = 10, failbit = False\<rparr>"
        "\<lparr>title = [], artist = [], album = [], year = []\<rparr>"]
    by simp
qed

text \<open>
  Claim C1 as stated fails where a frame declares more bytes than the tag has left. In
  \<open>overrun_file\<close> the tag declares the size 11 and its frame declares 20 payload bytes:
  the reader consumes 40 bytes of the file, past the end of the tag, and the audio data
  becomes the title.
\<close>

theorem frame_read_past_tag_boundary:
  "decodeSynchsafeInt (drop 6 (take 10 overrun_file)) = 11 \<and>
   readID3v2Tag (\<lambda>i. CHR 0x00) (\<lambda>k i. CHR 0x00) (open_file overrun_file)
       \<lparr>title = [], artist = [], album = [], year = []\<rparr> =
     (\<lparr>data = overrun_file, pos = 40, failbit = False\<rparr>,
      \<lparr>title = ''udio-data-past-tag!'', artist = [], album = [], year = []\<rparr>) \<and>
   \<not> (40 :: int) \<le> 10 + decodeSynchsafeInt (drop 6 (take 10 overrun_file))"
  by (simp add: overrun_file_def eval_defs)

text \<open>
  Claim C2, as the code has it. The stream's failure state is never inspected. For every
  input that takes the modern path and on which the source cannot supply the bytes that
  some read of the modern tag reader asks for (the stream has failed when the reader is
  done, lemma \<open>read_failbit\<close>), \<^verbatim>\<open>readMetadata\<close> throws nothing: it returns the record
  that the reader built.
\<close>

theorem readMetadata_short_read:
  assumes "files filepath = Some d"
    and "fst (hasID3v2Tag (detect_header u) (open_file d))"
    and "failbit (fst (readID3v2Tag (v2_header u) (v2_frameHeader u)
                        (snd (hasID3v2Tag (detect_header u) (open_file d)))
                        \<lparr>title = [], artist = [], album = [], year = []\<rparr>))"
  shows "readMetadata u files filepath =
           Inr (snd (readID3v2Tag (v2_header u) (v2_frameHeader u)
                      (snd (hasID3v2Tag (detect_header u) (open_file d)))
                      \<lparr>title = [], artist = [], album = [], year = []\<rparr>))"
proof -
  obtain modern f1 where h: "hasID3v2Tag (detect_header u) (open_file d) = (modern, f1)"
    by (cases "hasID3v2Tag (detect_header u) (open_file d)")
  with assms(2) have "modern" by simp
  with assms(1) h show ?thesis
    by (simp add: readMetadata_def Let_def split: prod.splits)
qed

theorem readMetadata_short_read_witness:
  "[''cut.mp3'' \<mapsto> truncated_file] ''cut.mp3'' = Some truncated_file \<and>
   fst (hasID3v2Tag (detect_header zero_uninit) (open_file truncated_file)) \<and>
   failbit (fst (readID3v2Tag (v2_header zero_uninit) (v2_frameHeader zero_uninit)
                  (snd (hasID3v2Tag (detect_header zero_uninit) (open_file truncated_file)))
                  \<lparr>title = [], artist = [], album = [], year = []\<rparr>)) \<and>
   readMetadata zero_uninit [''cut.mp3'' \<mapsto> truncated_file] ''cut.mp3'' =
     Inr (snd (readID3v2Tag (v2_header zero_uninit) (v2_frameHeader zero_uninit)
                (snd (hasID3v2Tag (detect_header zero_uninit) (open_file truncated_file)))
                \<lparr>title = [], artist = [], album = [], year = []\<rparr>)) \<and>
   snd (readID3v2Tag (v2_header zero_uninit) (v2_frameHeader zero_uninit)
                (snd (hasID3v2Tag (detect_header zero_uninit) (open_file truncated_file)))
                \<lparr>title = [], artist = [], album = [], year = []\<rparr>) =
     \<lparr>title = ''Hel'' @ [CHR 0x00, CHR 0x00], artist = [], album = [], year = []\<rparr>"
proof -
  have a: "[''cut.mp3'' \<mapsto> truncated_file] ''cut.mp3'' = Some truncated_file"
    by simp
  have h: "hasID3v2Tag (detect_header zero_uninit) (open_file truncated_file) =
      (True, \<lparr>data = truncated_file, pos = 3, failbit = False\<rparr>)"
    by (simp add: truncated_file_def hasID3v2Tag_def seekg_def read_def open_file_def)
  have r: "readID3v2Tag (v2_header zero_uninit) (v2_frameHeader zero_uninit)
             \<lparr>data = truncated_file, pos = 3, failbit = False\<rparr>
             \<lparr>title = [], artist = [], album = [], year = []\<rparr> =
           (\<lparr>data = truncated_file, pos = 24, failbit = True\<rparr>,
            \<lparr>title = ''Hel'' @ [CHR 0x00, CHR 0x00], artist = [], album = [], year = []\<rparr>)"
    by code_simp
  have b: "fst (hasID3v2Tag (detect_header zero_uninit) (open_file truncated_file))"
    by (simp add: h)
  have c: "failbit (fst (readID3v2Tag (v2_header zero_uninit) (v2_frameHeader zero_uninit)
                  (snd (hasID3v2Tag (detect_header zero_uninit) (open_file truncated_file)))
                  \<lparr>title = [], artist = [], album = [], year = []\<rparr>))"
    by (simp add: h r)
  show ?thesis
    using readMetadata_short_read [where files = "[''cut.mp3'' \<mapsto> truncated_file]"
        and filepath = "''cut.mp3''" and d = truncated_file and u = zero_uninit, OF a b c] a b c
    by (simp add: h r)
qed

text \<open>
  Claim C2 as stated fails on \<open>truncated_file\<close>: the frame declares 6 payload bytes and
  the file ends after 4 of them. The read is short, and \<^verbatim>\<open>readMetadata\<close> returns a record
  whose title is made of the bytes that were there and of the zero bytes the payload
  buffer started with.
\<close>

theorem short_read_returns_record:
  "length truncated_file = 24 \<and>
   failbit (fst (readID3v2Tag (\<lambda>i. CHR 0x00) (\<lambda>k i. CHR 0x00)
                  \<lparr>data = truncated_file, pos = 3, failbit = False\<rparr>
                  \<lparr>title = [], artist = [], album = [], year = []\<rparr>)) \<and>
   readMetadata zero_uninit [''cut.mp3'' \<mapsto> truncated_file] ''cut.mp3'' =
     Inr \<lparr>title = ''Hel'' @ [CHR 0x00, CHR 0x00], artist = [], album = [], year = []\<rparr>"
  by code_simp

text \<open>
  A turn of the loop on a frame header with a recognized identifier and the declared
  size 0 consumes the ten header bytes and gives the record back as it was.
\<close>

lemma readFrame_empty_payload:
  assumes "\<not> failbit f"
    and "take 10 (drop (pos f) (data f)) = frameID @ sizeBytes @ flagBytes"
    and "frameID \<in> {''TIT2'', ''TPE1'', ''TALB'', ''TYER''}"
    and "length sizeBytes = 4" and "length flagBytes = 2"
    and "decodeSynchsafeInt sizeBytes = 0"
  shows "readFrame prior f metadata bytesRead =
           (f\<lparr>pos := pos f + 10\<rparr>, metadata, bytesRead + 10) \<and>
         (bytesRead < tagSize \<longrightarrow>
            frameLoop priors k tagSize f metadata bytesRead =
              (if tagSize \<le> bytesRead + 10 then (f\<lparr>pos := pos f + 10\<rparr>, metadata, bytesRead + 10)
               else frameLoop priors (k + 1) tagSize (f\<lparr>pos := pos f + 10\<rparr>) metadata
                      (bytesRead + 10)))"
proof -
  have l: "length frameID = 4"
    using assms(3) by auto
  have r: "read f s 10 = (frameID @ sizeBytes @ flagBytes, f\<lparr>pos := pos f + 10\<rparr>)" for s
    using assms(1,2) by (rule read_header_bytes) (simp add: l assms(4,5))
  have z: "decodeSynchsafeInt (drop 4 (frameID @ sizeBytes @ flagBytes)) = 0"
    using assms(4,6) by (simp add: l decodeSynchsafeInt_append)
  have step: "readFrame s f metadata bytesRead =
           (f\<lparr>pos := pos f + 10\<rparr>, metadata, bytesRead + 10)" for s
    by (simp add: readFrame_def r z del: drop_append)
  show ?thesis
  proof (intro conjI impI)
    show "readFrame prior f metadata bytesRead =
           (f\<lparr>pos := pos f + 10\<rparr>, metadata, bytesRead + 10)"
      by (rule step)
    assume "bytesRead < tagSize"
    then show "frameLoop priors k tagSize f metadata bytesRead =
              (if tagSize \<le> bytesRead + 10 then (f\<lparr>pos := pos f + 10\<rparr>, metadata, bytesRead + 10)
               else frameLoop priors (k + 1) tagSize (f\<lparr>pos := pos f + 10\<rparr>) metadata
                      (bytesRead + 10))"
      by (subst frameLoop.simps) (simp add: step)
  qed
qed

subsection \<open>Tags whose frames are wholly in the file\<close>

lemma length_encode_frame:
  "wf_frame fr \<Longrightarrow> length (encode_frame fr) = 10 + length (frame_payload fr)"
  by (simp add: wf_frame_def encode_frame_def)

lemma readFrame_wf:
  assumes good: "\<not> failbit f" and d: "data f = pre @ encode_frame fr @ rest"
    and p: "pos f = length pre" and wf: "wf_frame fr"
  shows "readFrame s f metadata bytesRead =
           (f\<lparr>pos := length pre + length (encode_frame fr)\<rparr>, store_frame metadata fr,
            bytesRead + frame_bytes fr)"
proof -
  let ?hdr = "frame_id fr @ frame_size fr @ frame_flags fr"
  let ?f1 = "f\<lparr>pos := pos f + 10\<rparr>"
  have l: "length (frame_id fr) = 4" "length (frame_size fr) = 4" "length (frame_flags fr) = 2"
    and sz: "decodeSynchsafeInt (frame_size fr) = int (length (frame_payload fr))"
    using wf by (simp_all add: wf_frame_def)
  have dr: "drop (pos f) (data f) = ?hdr @ frame_payload fr @ rest"
    by (simp add: d p encode_frame_def)
  have "take 10 (drop (pos f) (data f)) = ?hdr"
    by (simp add: dr l)
  with good have r: "read f s 10 = (?hdr, ?f1)"
    by (rule read_header_bytes) (simp add: l)
  have id: "take 4 ?hdr = frame_id fr"
    by (simp add: l)
  have "drop 4 ?hdr = frame_size fr @ frame_flags fr"
    by (simp add: l)
  then have fs: "decodeSynchsafeInt (drop 4 ?hdr) = int (length (frame_payload fr))"
    by (simp only: decodeSynchsafeInt_append [OF l(2)] sz)
  show ?thesis
  proof (cases "frame_payload fr = []")
    case True
    then show ?thesis
      unfolding readFrame_def r prod.case Let_def fs
      by (simp add: store_frame_def frame_bytes_def encode_frame_def l p)
  next
    case False
    let ?n = "length (frame_payload fr)"
    have "drop (pos ?f1) (data ?f1) = drop 10 (drop (pos f) (data f))"
      by (simp add: add.commute)
    also have "\<dots> = frame_payload fr @ rest"
      by (simp add: dr l)
    finally have dr1: "drop (pos ?f1) (data ?f1) = frame_payload fr @ rest" .
    have "pos ?f1 + ?n \<le> length (data ?f1)"
      by (simp add: d p encode_frame_def l)
    with good have rd: "read ?f1 (\<lambda>_. CHR 0x00) ?n =
        (take ?n (drop (pos ?f1) (data ?f1)), ?f1\<lparr>pos := pos ?f1 + ?n\<rparr>)"
      by (intro read_full) simp_all
    have t: "take ?n (drop (pos ?f1) (data ?f1)) = frame_payload fr"
      unfolding dr1 by simp
    have e: "?f1\<lparr>pos := pos ?f1 + ?n\<rparr> = f\<lparr>pos := length pre + length (encode_frame fr)\<rparr>"
      by (simp add: encode_frame_def l p)
    have r2: "read ?f1 (\<lambda>_. CHR 0x00) (nat (int ?n)) =
        (frame_payload fr, f\<lparr>pos := length pre + length (encode_frame fr)\<rparr>)"
      using rd unfolding t e by simp
    from False have pos: "int ?n > 0" by simp
    show ?thesis
      unfolding readFrame_def r prod.case Let_def fs id
      using pos False by (simp only: r2 if_True prod.case store_frame_def frame_bytes_def if_False)
        simp
  qed
qed

lemma total_bytes_Nil: "total_bytes [] = 0"
  by (simp add: total_bytes_def)

lemma total_bytes_Cons: "total_bytes (fr # frs) = frame_bytes fr + total_bytes frs"
  by (simp add: total_bytes_def)

lemma total_bytes_nonneg: "0 \<le> total_bytes frs"
  by (induction frs) (simp_all add: total_bytes_Nil total_bytes_Cons frame_bytes_def)

lemma frameLoop_frames:
  assumes "frs \<noteq> []" and "list_all wf_frame frs"
    and "\<not> failbit f" and "data f = pre @ concat (map encode_frame frs) @ rest"
    and "pos f = length pre"
    and "bytesRead + total_bytes (butlast frs) < tagSize"
    and "tagSize \<le> bytesRead + total_bytes frs"
  shows "frameLoop frameHeader0 k tagSize f metadata bytesRead =
           (f\<lparr>pos := length pre + length (concat (map encode_frame frs))\<rparr>,
            foldl store_frame metadata frs, bytesRead + total_bytes frs)"
  using assms
proof (induction frs arbitrary: k f metadata bytesRead pre)
  case Nil
  then show ?case by simp
next
  case (Cons fr frs)
  let ?f1 = "f\<lparr>pos := length pre + length (encode_frame fr)\<rparr>"
  let ?b1 = "bytesRead + frame_bytes fr"
  from Cons.prems(2) have wf: "wf_frame fr" and wfs: "list_all wf_frame frs"
    by simp_all
  have "0 \<le> total_bytes (butlast (fr # frs))"
    by (rule total_bytes_nonneg)
  with Cons.prems(6) have less: "bytesRead < tagSize"
    by simp
  have "data f = pre @ encode_frame fr @ (concat (map encode_frame frs) @ rest)"
    using Cons.prems(4) by simp
  with Cons.prems(3) have rf: "readFrame (frameHeader0 k) f metadata bytesRead =
      (?f1, store_frame metadata fr, ?b1)"
    using Cons.prems(5) wf by (rule readFrame_wf)
  show ?case
  proof (cases "frs = []")
    case True
    with Cons.prems(7) have "tagSize \<le> ?b1"
      by (simp add: total_bytes_Cons total_bytes_Nil)
    then have "frameLoop frameHeader0 k tagSize f metadata bytesRead =
        (?f1, store_frame metadata fr, ?b1)"
      using less rf by (subst frameLoop.simps) simp
    with True show ?thesis
      by (simp add: total_bytes_Cons total_bytes_Nil)
  next
    case False
    then have bl: "butlast (fr # frs) = fr # butlast frs"
      by simp
    have nn: "0 \<le> total_bytes (butlast frs)"
      by (rule total_bytes_nonneg)
    from Cons.prems(6) have cont: "?b1 + total_bytes (butlast frs) < tagSize"
      unfolding bl by (simp add: total_bytes_Cons)
    with nn have "\<not> tagSize \<le> ?b1"
      by simp
    then have "frameLoop frameHeader0 k tagSize f metadata bytesRead =
        frameLoop frameHeader0 (k + 1) tagSize ?f1 (store_frame metadata fr) ?b1"
      using less rf by (subst frameLoop.simps) simp
    also have "\<dots> = (?f1\<lparr>pos := length (pre @ encode_frame fr) +
                            length (concat (map encode_frame frs))\<rparr>,
                        foldl store_frame (store_frame metadata fr) frs,
                        ?b1 + total_bytes frs)"
    proof (rule Cons.IH [OF False wfs _ _ _ cont])
      show "\<not> failbit ?f1" using Cons.prems(3) by simp
      show "data ?f1 = (pre @ encode_frame fr) @ concat (map encode_frame frs) @ rest"
        using Cons.prems(4) by simp
      show "pos ?f1 = length (pre @ encode_frame fr)" by simp
      show "tagSize \<le> ?b1 + total_bytes frs"
        using Cons.prems(7) by (simp add: total_bytes_Cons)
    qed
    finally show ?thesis
      by (simp add: total_bytes_Cons add.assoc)
  qed
qed

lemma title_store_frame:
  "frame_id fr = ''TIT2'' \<longrightarrow> frame_payload fr = [] \<Longrightarrow>
   title (store_frame metadata fr) = title metadata"
  by (simp add: store_frame_def)

lemma title_foldl_store_frame:
  "\<forall>x \<in> set frs. frame_id x = ''TIT2'' \<longrightarrow> frame_payload x = [] \<Longrightarrow>
   title (foldl store_frame metadata frs) = title metadata"
  by (induction frs arbitrary: metadata) (simp_all add: title_store_frame)

lemma parseTextFrame_latin1: "parseTextFrame (CHR 0x00 # P) = P"
  by (simp add: parseTextFrame_def)

lemma readID3v2Tag_frames:
  assumes "data f = ''ID3'' @ version_flags @ tag_size @ concat (map encode_frame frs) @ rest"
    and "\<not> failbit f"
    and "length version_flags = 3" and "length tag_size = 4"
    and "frs \<noteq> []" and "list_all wf_frame frs"
    and "10 + total_bytes (butlast frs) < decodeSynchsafeInt tag_size"
    and "decodeSynchsafeInt tag_size \<le> 10 + total_bytes frs"
  shows "snd (readID3v2Tag header0 frameHeader0 f metadata) = foldl store_frame metadata frs"
proof -
  let ?pre = "''ID3'' @ version_flags @ tag_size"
  let ?f1 = "f\<lparr>pos := 0\<rparr>"
  let ?f2 = "f\<lparr>pos := 10\<rparr>"
  have s: "seekg f 0 ios_beg = ?f1"
    using assms(2) by (rule seekg_beg)
  have "take 10 (drop (pos ?f1) (data ?f1)) = ?pre"
    by (simp add: assms(1,3,4))
  with assms(2) have "read ?f1 header0 10 = (?pre, ?f1\<lparr>pos := pos ?f1 + 10\<rparr>)"
    by (intro read_header_bytes) (simp_all add: assms(3,4))
  then have r: "read ?f1 header0 10 = (?pre, ?f2)"
    by simp
  have t: "decodeSynchsafeInt (drop 6 ?pre) = decodeSynchsafeInt tag_size"
    by (simp add: assms(3))
  have "frameLoop frameHeader0 0 (decodeSynchsafeInt tag_size) ?f2 metadata 10 =
      (?f2\<lparr>pos := length ?pre + length (concat (map encode_frame frs))\<rparr>,
       foldl store_frame metadata frs, 10 + total_bytes frs)"
    using assms(5,6) _ _ _ assms(7,8)
  proof (rule frameLoop_frames)
    show "\<not> failbit ?f2" using assms(2) by simp
    show "data ?f2 = ?pre @ concat (map encode_frame frs) @ rest"
      using assms(1) by simp
    show "pos ?f2 = length ?pre" by (simp add: assms(3,4))
  qed
  then show ?thesis
    unfolding readID3v2Tag_def s Let_def r prod.case t by simp
qed

text \<open>
  Claim C8, as the code has it. A well-formed modern-tag input is \<open>ID3\<close>, three more
  header bytes, the four size bytes and then well-formed frames that the loop walks to
  the last one (the count stays below the declared tag size before the last frame and
  reaches it with the last frame). When one of the frames is a \<^verbatim>\<open>TIT2\<close> frame whose payload
  is the encoding byte 0 followed by the bytes \<open>P\<close>, and no later \<^verbatim>\<open>TIT2\<close> frame has a
  payload, \<^verbatim>\<open>readMetadata\<close> returns a record whose title is \<open>P\<close>, untrimmed. The witness
  is the tag of declared size 42 whose \<^verbatim>\<open>TIT2\<close> frame declares the size 7 and carries
  the encoding byte 0 and the six bytes \<^verbatim>\<open>Hello\<close>, 0: the title is those six bytes.
\<close>

theorem readMetadata_title_latin1:
  assumes "files filepath = Some d"
    and "d = ''ID3'' @ version_flags @ tag_size @
               concat (map encode_frame (before @ fr # after)) @ rest"
    and "length version_flags = 3" and "length tag_size = 4"
    and "list_all wf_frame (before @ fr # after)"
    and "10 + total_bytes (butlast (before @ fr # after)) < decodeSynchsafeInt tag_size"
    and "decodeSynchsafeInt tag_size \<le> 10 + total_bytes (before @ fr # after)"
    and "frame_id fr = ''TIT2''" and "frame_payload fr = CHR 0x00 # P"
    and "\<forall>x \<in> set after. frame_id x = ''TIT2'' \<longrightarrow> frame_payload x = []"
  shows "\<exists>metadata. readMetadata u files filepath = Inr metadata \<and> title metadata = P"
proof -
  let ?frs = "before @ fr # after"
  let ?md0 = "\<lparr>title = [], artist = [], album = [], year = []\<rparr>"
  let ?f = "\<lparr>data = d, pos = 3, failbit = False\<rparr>"
  have "3 \<le> length d" and "take 3 d = ''ID3''"
    by (simp_all add: assms(2))
  then have h: "hasID3v2Tag (detect_header u) (open_file d) = (True, ?f)"
    by (simp add: hasID3v2Tag_open)
  have "data ?f = ''ID3'' @ version_flags @ tag_size @ concat (map encode_frame ?frs) @ rest"
    using assms(2) by simp
  moreover have "\<not> failbit ?f" by simp
  moreover have "?frs \<noteq> []" by simp
  ultimately have m: "snd (readID3v2Tag (v2_header u) (v2_frameHeader u) ?f ?md0) =
      foldl store_frame ?md0 ?frs"
    using assms(3,4,5,6,7) by (intro readID3v2Tag_frames) assumption+
  have r: "readMetadata u files filepath = Inr (foldl store_frame ?md0 ?frs)"
    using assms(1) h m [symmetric] by (simp add: readMetadata_def split: prod.splits)
  have "title (foldl store_frame ?md0 ?frs) =
        title (foldl store_frame (store_frame (foldl store_frame ?md0 before) fr) after)"
    by simp
  also have "\<dots> = title (store_frame (foldl store_frame ?md0 before) fr)"
    using assms(10) by (rule title_foldl_store_frame)
  also have "\<dots> = P"
    by (simp add: store_frame_def assms(8,9) parseTextFrame_latin1)
  finally show ?thesis using r by simp
qed

theorem readMetadata_title_latin1_witness:
  "[''hello.mp3'' \<mapsto> hello_size7_file] ''hello.mp3'' = Some hello_size7_file \<and>
   hello_size7_file =
     ''ID3'' @ [CHR 0x03, CHR 0x00, CHR 0x00] @ [CHR 0x00, CHR 0x00, CHR 0x00, CHR 0x2A] @
     concat (map encode_frame ([] @ hello_frame # [padding_frame, padding_frame])) @
     replicate 5 (CHR 0x00) \<and>
   list_all wf_frame ([] @ hello_frame # [padding_frame, padding_frame]) \<and>
   decodeSynchsafeInt [CHR 0x00, CHR 0x00, CHR 0x00, CHR 0x2A] = 42 \<and>
   10 + total_bytes (butlast ([] @ hello_frame # [padding_frame, padding_frame])) = 37 \<and>
   10 + total_bytes ([] @ hello_frame # [padding_frame, padding_frame]) = 47 \<and>
   frame_id hello_frame = ''TIT2'' \<and>
   frame_payload hello_frame = CHR 0x00 # ''Hello'' @ [CHR 0x00] \<and>
   frame_id padding_frame \<noteq> ''TIT2'' \<and>
   (\<exists>metadata. readMetadata zero_uninit [''hello.mp3'' \<mapsto> hello_size7_file] ''hello.mp3'' =
                  Inr metadata \<and>
               title metadata = ''Hello'' @ [CHR 0x00])"
proof -
  let ?frs = "[] @ hello_frame # [padding_frame, padding_frame]"
  have a: "[''hello.mp3'' \<mapsto> hello_size7_file] ''hello.mp3'' = Some hello_size7_file"
    by simp
  have b: "hello_size7_file =
     ''ID3'' @ [CHR 0x03, CHR 0x00, CHR 0x00] @ [CHR 0x00, CHR 0x00, CHR 0x00, CHR 0x2A] @
     concat (map encode_frame ?frs) @ replicate 5 (CHR 0x00)"
    by (simp add: hello_size7_file_def encode_frame_def hello_frame_def padding_frame_def
        replicate_append_same [symmetric] numeral_eq_Suc)
  have c: "list_all wf_frame ?frs"
    by (simp add: wf_frame_def hello_frame_def padding_frame_def decodeSynchsafeInt_def
        char_to_int_def)
  have d: "decodeSynchsafeInt [CHR 0x00, CHR 0x00, CHR 0x00, CHR 0x2A] = 42"
    by (simp add: decodeSynchsafeInt_def char_to_int_def)
  have e: "10 + total_bytes (butlast ?frs) = 37"
    by (simp add: total_bytes_def frame_bytes_def hello_frame_def padding_frame_def)
  have f: "10 + total_bytes ?frs = 47"
    by (simp add: total_bytes_def frame_bytes_def hello_frame_def padding_frame_def)
  have g: "frame_id hello_frame = ''TIT2''"
    and h: "frame_payload hello_frame = CHR 0x00 # ''Hello'' @ [CHR 0x00]"
    and i: "frame_id padding_frame \<noteq> ''TIT2''"
    by (simp_all add: hello_frame_def padding_frame_def)
  have j: "\<forall>x \<in> set [padding_frame, padding_frame]. frame_id x = ''TIT2'' \<longrightarrow> frame_payload x = []"
    using i by simp
  have "\<exists>metadata. readMetadata zero_uninit [''hello.mp3'' \<mapsto> hello_size7_file] ''hello.mp3'' =
                  Inr metadata \<and>
               title metadata = ''Hello'' @ [CHR 0x00]"
    using a b _ _ c _ _ g h j
  proof (rule readMetadata_title_latin1)
    show "length [CHR 0x03, CHR 0x00, CHR 0x00] = 3" by simp
    show "length [CHR 0x00, CHR 0x00, CHR 0x00, CHR 0x2A] = 4" by simp
    show "10 + total_bytes (butlast ?frs) < decodeSynchsafeInt [CHR 0x00, CHR 0x00, CHR 0x00, CHR 0x2A]"
      unfolding d e by simp
    show "decodeSynchsafeInt [CHR 0x00, CHR 0x00, CHR 0x00, CHR 0x2A] \<le> 10 + total_bytes ?frs"
      unfolding d f by simp
  qed
  with a b c d e f g h i show ?thesis
    by (intro conjI)
qed

text \<open>
  Claim C8 as stated fails in its concrete scenario. When the \<^verbatim>\<open>TIT2\<close> frame declares the
  size 6, the payload is the six bytes 0, \<^verbatim>\<open>Hello\<close>: the encoding byte and five bytes of
  text. The returned title is the five bytes \<^verbatim>\<open>Hello\<close>; the NUL byte after them is not
  part of it.
\<close>

theorem hello_declared_size_6:
  "readMetadata zero_uninit [''hello.mp3'' \<mapsto> hello_size6_file] ''hello.mp3'' =
     Inr \<lparr>title = ''Hello'', artist = [], album = [], year = []\<rparr> \<and>
   ''Hello'' \<noteq> ''Hello'' @ [CHR 0x00]"
  by (simp add: hello_size6_file_def eval_defs)

lemma frame_field_store_frame:
  assumes "frameID \<in> {''TIT2'', ''TPE1'', ''TALB'', ''TYER''}"
    and "frame_id x = frameID \<longrightarrow> frame_payload x = []"
  shows "frame_field frameID (store_frame metadata x) = frame_field frameID metadata"
  using assms by (auto simp add: frame_field_def store_frame_def)

lemma frame_field_foldl_store_frame:
  assumes "frameID \<in> {''TIT2'', ''TPE1'', ''TALB'', ''TYER''}"
    and "\<forall>x \<in> set frs. frame_id x = frameID \<longrightarrow> frame_payload x = []"
  shows "frame_field frameID (foldl store_frame metadata frs) = frame_field frameID metadata"
  using assms(2)
proof (induction frs arbitrary: metadata)
  case Nil
  then show ?case by simp
next
  case (Cons x frs)
  have "frame_field frameID (foldl store_frame (store_frame metadata x) frs) =
        frame_field frameID (store_frame metadata x)"
    using Cons.prems by (intro Cons.IH) simp
  also have "\<dots> = frame_field frameID metadata"
    using assms(1) Cons.prems by (intro frame_field_store_frame) simp_all
  finally show ?case by simp
qed

text \<open>
  Claim C9, as the code has it. Take a well-formed modern-tag input (as for claim C8) with
  a frame that has a recognized identifier and the declared size 0, in which no frame
  with that identifier has a payload. Then the field of that identifier is at its default
  empty value in the record that \<^verbatim>\<open>readMetadata\<close> returns. Wherever the loop meets the
  header of such a frame, the turn consumes the ten header bytes and nothing else and
  gives the record back as it was, whatever it held: no payload is read and no decoded
  text is stored. The loop then stops or goes on with that same record.
\<close>

theorem empty_frame_leaves_field_default:
  assumes "files filepath = Some d"
    and "d = ''ID3'' @ version_flags @ tag_size @ concat (map encode_frame frs) @ rest"
    and "length version_flags = 3" and "length tag_size = 4"
    and "list_all wf_frame frs"
    and "10 + total_bytes (butlast frs) < decodeSynchsafeInt tag_size"
    and "decodeSynchsafeInt tag_size \<le> 10 + total_bytes frs"
    and "fr \<in> set frs"
    and "frame_id fr \<in> {''TIT2'', ''TPE1'', ''TALB'', ''TYER''}"
    and "decodeSynchsafeInt (frame_size fr) = 0"
    and "\<forall>x \<in> set frs. frame_id x = frame_id fr \<longrightarrow> frame_payload x = []"
  shows "(\<exists>metadata'. readMetadata u files filepath = Inr metadata' \<and>
                     frame_field (frame_id fr) metadata' = []) \<and>
         (\<not> failbit f \<and>
          take 10 (drop (pos f) (data f)) = frame_id fr @ frame_size fr @ frame_flags fr \<longrightarrow>
            readFrame prior f metadata bytesRead =
              (f\<lparr>pos := pos f + 10\<rparr>, metadata, bytesRead + 10) \<and>
            (bytesRead < tagSize \<longrightarrow>
               frameLoop priors k tagSize f metadata bytesRead =
                 (if tagSize \<le> bytesRead + 10
                  then (f\<lparr>pos := pos f + 10\<rparr>, metadata, bytesRead + 10)
                  else frameLoop priors (k + 1) tagSize (f\<lparr>pos := pos f + 10\<rparr>) metadata
                         (bytesRead + 10))))"
proof (rule conjI [OF _ impI])
  let ?md0 = "\<lparr>title = [], artist = [], album = [], year = []\<rparr>"
  let ?f = "\<lparr>data = d, pos = 3, failbit = False\<rparr>"
  have "3 \<le> length d" and "take 3 d = ''ID3''"
    by (simp_all add: assms(2))
  then have h: "hasID3v2Tag (detect_header u) (open_file d) = (True, ?f)"
    by (simp add: hasID3v2Tag_open)
  have "data ?f = ''ID3'' @ version_flags @ tag_size @ concat (map encode_frame frs) @ rest"
    using assms(2) by simp
  moreover have "\<not> failbit ?f" by simp
  moreover have "frs \<noteq> []" using assms(8) by auto
  ultimately have m: "snd (readID3v2Tag (v2_header u) (v2_frameHeader u) ?f ?md0) =
      foldl store_frame ?md0 frs"
    using assms(3,4,5,6,7) by (intro readID3v2Tag_frames) assumption+
  have r: "readMetadata u files filepath = Inr (foldl store_frame ?md0 frs)"
    using assms(1) h m [symmetric] by (simp add: readMetadata_def split: prod.splits)
  have "frame_field (frame_id fr) (foldl store_frame ?md0 frs) = frame_field (frame_id fr) ?md0"
    using assms(9,11) by (rule frame_field_foldl_store_frame)
  also have "\<dots> = []"
    by (simp add: frame_field_def)
  finally show "\<exists>metadata'. readMetadata u files filepath = Inr metadata' \<and>
                     frame_field (frame_id fr) metadata' = []"
    using r by simp
next
  assume a: "\<not> failbit f \<and>
          take 10 (drop (pos f) (data f)) = frame_id fr @ frame_size fr @ frame_flags fr"
  have wf: "wf_frame fr"
    using assms(5,8) by (simp add: list_all_iff)
  then have l: "length (frame_size fr) = 4" "length (frame_flags fr) = 2"
    by (simp_all add: wf_frame_def)
  from a have "\<not> failbit f"
    and "take 10 (drop (pos f) (data f)) = frame_id fr @ frame_size fr @ frame_flags fr"
    by simp_all
  then show "readFrame prior f metadata bytesRead =
              (f\<lparr>pos := pos f + 10\<rparr>, metadata, bytesRead + 10) \<and>
            (bytesRead < tagSize \<longrightarrow>
               frameLoop priors k tagSize f metadata bytesRead =
                 (if tagSize \<le> bytesRead + 10
                  then (f\<lparr>pos := pos f + 10\<rparr>, metadata, bytesRead + 10)
                  else frameLoop priors (k + 1) tagSize (f\<lparr>pos := pos f + 10\<rparr>) metadata
                         (bytesRead + 10)))"
    using assms(9) l assms(10) by (rule readFrame_empty_payload)
qed

theorem empty_frame_leaves_field_default_witness:
  "[''empty.mp3'' \<mapsto> empty_then_artist_file] ''empty.mp3'' = Some empty_then_artist_file \<and>
   empty_then_artist_file =
     ''ID3'' @ [CHR 0x03, CHR 0x00, CHR 0x00] @ [CHR 0x00, CHR 0x00, CHR 0x00, CHR 0x17] @
     concat (map encode_frame [empty_title_frame, artist_frame]) @ [] \<and>
   list_all wf_frame [empty_title_frame, artist_frame] \<and>
   decodeSynchsafeInt [CHR 0x00, CHR 0x00, CHR 0x00, CHR 0x17] = 23 \<and>
   10 + total_bytes (butlast [empty_title_frame, artist_frame]) = 20 \<and>
   10 + total_bytes [empty_title_frame, artist_frame] = 33 \<and>
   empty_title_frame \<in> set [empty_title_frame, artist_frame] \<and>
   frame_id empty_title_frame = ''TIT2'' \<and>
   decodeSynchsafeInt (frame_size empty_title_frame) = 0 \<and>
   frame_payload empty_title_frame = [] \<and> frame_id artist_frame \<noteq> ''TIT2'' \<and>
   (\<exists>metadata'. readMetadata zero_uninit [''empty.mp3'' \<mapsto> empty_then_artist_file] ''empty.mp3'' =
                   Inr metadata' \<and>
                frame_field ''TIT2'' metadata' = []) \<and>
   readMetadata zero_uninit [''empty.mp3'' \<mapsto> empty_then_artist_file] ''empty.mp3'' =
     Inr \<lparr>title = [], artist = ''Ab'', album = [], year = []\<rparr> \<and>
   \<not> failbit \<lparr>data = empty_then_artist_file, pos = 10, failbit = False\<rparr> \<and>
   take 10 (drop 10 empty_then_artist_file) =
     frame_id empty_title_frame @ frame_size empty_title_frame @ frame_flags empty_title_frame \<and>
   readFrame (\<lambda>i. CHR 0x00) \<lparr>data = empty_then_artist_file, pos = 10, failbit = False\<rparr>
       \<lparr>title = ''kept'', artist = [], album = [], year = []\<rparr> 10 =
     (\<lparr>data = empty_then_artist_file, pos = 20, failbit = False\<rparr>,
      \<lparr>title = ''kept'', artist = [], album = [], year = []\<rparr>, 20) \<and>
   (10 :: int) < 20 \<and>
   frameLoop (\<lambda>k i. CHR 0x00) 0 20 \<lparr>data = empty_then_artist_file, pos = 10, failbit = False\<rparr>
       \<lparr>title = ''kept'', artist = [], album = [], year = []\<rparr> 10 =
     (\<lparr>data = empty_then_artist_file, pos = 20, failbit = False\<rparr>,
      \<lparr>title = ''kept'', artist = [], album = [], year = []\<rparr>, 20)"
proof -
  let ?frs = "[empty_title_frame, artist_frame]"
  let ?f = "\<lparr>data = empty_then_artist_file, pos = 10, failbit = False\<rparr>"
  have a: "[''empty.mp3'' \<mapsto> empty_then_artist_file] ''empty.mp3'' = Some empty_then_artist_file"
    by simp
  have b: "empty_then_artist_file =
     ''ID3'' @ [CHR 0x03, CHR 0x00, CHR 0x00] @ [CHR 0x00, CHR 0x00, CHR 0x00, CHR 0x17] @
     concat (map encode_frame ?frs) @ []"
    by (simp add: empty_then_artist_file_def encode_frame_def empty_title_frame_def
        artist_frame_def)
  have c: "list_all wf_frame ?frs"
    by (simp add: wf_frame_def empty_title_frame_def artist_frame_def decodeSynchsafeInt_def
        char_to_int_def)
  have d: "decodeSynchsafeInt [CHR 0x00, CHR 0x00, CHR 0x00, CHR 0x17] = 23"
    by (simp add: decodeSynchsafeInt_def char_to_int_def)
  have e: "10 + total_bytes (butlast ?frs) = 20"
    by (simp add: total_bytes_def frame_bytes_def empty_title_frame_def)
  have g: "10 + total_bytes ?frs = 33"
    by (simp add: total_bytes_def frame_bytes_def empty_title_frame_def artist_frame_def)
  have h: "empty_title_frame \<in> set ?frs"
    by simp
  have i: "frame_id empty_title_frame = ''TIT2''"
    and j: "frame_payload empty_title_frame = []"
    and k: "frame_id artist_frame \<noteq> ''TIT2''"
    by (simp_all add: empty_title_frame_def artist_frame_def)
  have i': "frame_id empty_title_frame \<in> {''TIT2'', ''TPE1'', ''TALB'', ''TYER''}"
    by (simp add: i)
  have l: "decodeSynchsafeInt (frame_size empty_title_frame) = 0"
    by (simp add: empty_title_frame_def decodeSynchsafeInt_def char_to_int_def)
  have m: "\<forall>x \<in> set ?frs. frame_id x = frame_id empty_title_frame \<longrightarrow> frame_payload x = []"
    using i j k by simp
  have n: "readMetadata zero_uninit [''empty.mp3'' \<mapsto> empty_then_artist_file] ''empty.mp3'' =
     Inr \<lparr>title = [], artist = ''Ab'', album = [], year = []\<rparr>"
    by (simp add: empty_then_artist_file_def eval_defs)
  have o: "\<not> failbit ?f"
    by simp
  have p: "take 10 (drop 10 empty_then_artist_file) =
     frame_id empty_title_frame @ frame_size empty_title_frame @ frame_flags empty_title_frame"
    by (simp add: empty_then_artist_file_def empty_title_frame_def)
  have t: "(\<exists>metadata'. readMetadata zero_uninit [''empty.mp3'' \<mapsto> empty_then_artist_file]
                            ''empty.mp3'' = Inr metadata' \<and>
                     frame_field (frame_id empty_title_frame) metadata' = []) \<and>
         (\<not> failbit ?f \<and>
          take 10 (drop (pos ?f) (data ?f)) =
            frame_id empty_title_frame @ frame_size empty_title_frame @
            frame_flags empty_title_frame \<longrightarrow>
            readFrame (\<lambda>i. CHR 0x00) ?f \<lparr>title = ''kept'', artist = [], album = [], year = []\<rparr> 10 =
              (?f\<lparr>pos := pos ?f + 10\<rparr>,
               \<lparr>title = ''kept'', artist = [], album = [], year = []\<rparr>, 10 + 10) \<and>
            ((10 :: int) < 20 \<longrightarrow>
               frameLoop (\<lambda>k i. CHR 0x00) 0 20 ?f
                   \<lparr>title = ''kept'', artist = [], album = [], year = []\<rparr> 10 =
                 (if (20 :: int) \<le> 10 + 10
                  then (?f\<lparr>pos := pos ?f + 10\<rparr>,
                        \<lparr>title = ''kept'', artist = [], album = [], year = []\<rparr>, 10 + 10)
                  else frameLoop (\<lambda>k i. CHR 0x00) (0 + 1) 20 (?f\<lparr>pos := pos ?f + 10\<rparr>)
                         \<lparr>title = ''kept'', artist = [], album = [], year = []\<rparr> (10 + 10))))"
    using a b _ _ c _ _ h i' l m
  proof (rule empty_frame_leaves_field_default)
    show "length [CHR 0x03, CHR 0x00, CHR 0x00] = 3" by simp
    show "length [CHR 0x00, CHR 0x00, CHR 0x00, CHR 0x17] = 4" by simp
    show "10 + total_bytes (butlast ?frs) < decodeSynchsafeInt [CHR 0x00, CHR 0x00, CHR 0x00, CHR 0x17]"
      unfolding d e by simp
    show "decodeSynchsafeInt [CHR 0x00, CHR 0x00, CHR 0x00, CHR 0x17] \<le> 10 + total_bytes ?frs"
      unfolding d g by simp
  qed
  from t have t1: "\<exists>metadata'. readMetadata zero_uninit [''empty.mp3'' \<mapsto> empty_then_artist_file]
                            ''empty.mp3'' = Inr metadata' \<and> frame_field ''TIT2'' metadata' = []"
    by (simp add: i)
  from t o p have t2: "readFrame (\<lambda>i. CHR 0x00) ?f
       \<lparr>title = ''kept'', artist = [], album = [], year = []\<rparr> 10 =
     (\<lparr>data = empty_then_artist_file, pos = 20, failbit = False\<rparr>,
      \<lparr>title = ''kept'', artist = [], album = [], year = []\<rparr>, 20)"
    by simp
  from t o p have t3: "frameLoop (\<lambda>k i. CHR 0x00) 0 20 ?f
       \<lparr>title = ''kept'', artist = [], album = [], year = []\<rparr> 10 =
     (\<lparr>data = empty_then_artist_file, pos = 20, failbit = False\<rparr>,
      \<lparr>title = ''kept'', artist = [], album = [], year = []\<rparr>, 20)"
    by simp
  have q: "(10 :: int) < 20"
    by simp
  from a b c d e g h i l j k t1 n o p t2 q t3 show ?thesis
    by (intro conjI)
qed

text \<open>
  Claim C9 as stated fails where another frame of the same identifier has a payload. In
  \<open>empty_then_title_file\<close> a \<^verbatim>\<open>TIT2\<close> frame of declared size 0 is followed by a \<^verbatim>\<open>TIT2\<close>
  frame with the payload 0, \<^verbatim>\<open>Hi\<close>: the returned title is \<^verbatim>\<open>Hi\<close>, not the empty string.
\<close>

theorem empty_frame_then_title:
  "take 10 (drop 10 empty_then_title_file) =
     ''TIT2'' @ [CHR 0x00, CHR 0x00, CHR 0x00, CHR 0x00] @ [CHR 0x00, CHR 0x00] \<and>
   decodeSynchsafeInt [CHR 0x00, CHR 0x00, CHR 0x00, CHR 0x00] = 0 \<and>
   readMetadata zero_uninit [''two.mp3'' \<mapsto> empty_then_title_file] ''two.mp3'' =
     Inr \<lparr>title = ''Hi'', artist = [], album = [], year = []\<rparr> \<and>
   ''Hi'' \<noteq> []"
  by (simp add: empty_then_title_file_def eval_defs)

end
